theory Spec2Isabelle
  imports Complex_Main
begin

section \<open>Python values used by the publisher\<close>

text \<open>
  The publisher is Python. Its unbounded non-negative integers are \<open>nat\<close>, its strings
  are \<open>string\<close> (names and paths restricted to code points below 256, where Python's
  \<open>\d\<close> is exactly \<open>0..9\<close> and the only case variant of \<open>v\<close> is \<open>V\<close>), and every
  \<open>raise\<close> is a value of \<open>error\<close> on the left of a sum.
\<close>

datatype error =
    RuntimeError string
  | TypeError
  | AttributeError
  | ZeroDivisionError
  | FileExistsError string
  | OSError string
  | ArgumentError
  | ErrorException

text \<open>\<open>str(n)\<close> for a non-negative integer: decimal digits, most significant first.\<close>

definition digit_char :: "nat \<Rightarrow> char" where
  "digit_char d = char_of (48 + d)"

fun str_nat :: "nat \<Rightarrow> string" where
  "str_nat n = (if n < 10 then [digit_char n] else str_nat (n div 10) @ [digit_char (n mod 10)])"

declare str_nat.simps [simp del]

text \<open>\<open>s.replace("\\", "/")\<close>: every backslash (code point 92) becomes a forward slash.\<close>

definition replace_backslash :: "string \<Rightarrow> string" where
  "replace_backslash s = map (\<lambda>c. if c = CHR 0x5C then CHR ''/'' else c) s"

text \<open>\<open>sep.join(xs)\<close>.\<close>

fun join :: "string \<Rightarrow> string list \<Rightarrow> string" where
  "join sep [] = []"
| "join sep [x] = x"
| "join sep (x # y # ys) = x @ sep @ join sep (y # ys)"

section \<open>LOD planner: the planned removal percentage\<close>

text \<open>
  \<open>run_local_publish\<close> (26.02.03, step 3) computes, for each level \<open>i\<close> of
  \<open>range(1, lod_count + 1)\<close>,
  \<^verbatim>\<open>
    keep_ratio = (base_keep_percent / 100.0) ** i
    remove_percent = 100.0 - (keep_ratio * 100.0)
    remove_percent = max(0.0, min(99.0, remove_percent))
  \<close>
  and hands \<open>remove_percent\<close> to the exporter. The farm worker's \<open>lod\<close> task computes the
  same expression. Python floats are read as the real numbers they approximate.
\<close>

definition remove_percent :: "real \<Rightarrow> nat \<Rightarrow> real" where
  "remove_percent base_keep_percent i =
     (let keep_ratio = (base_keep_percent / 100) ^ i;
          remove = 100 - keep_ratio * 100
      in max 0 (min 99 remove))"

text \<open>The percentages handed to the exporter, in loop order (levels \<open>1 .. lod_count\<close>).\<close>

definition planned_remove_percents :: "real \<Rightarrow> nat \<Rightarrow> real list" where
  "planned_remove_percents base_keep_percent lod_count =
     map (remove_percent base_keep_percent) [1 ..< lod_count + 1]"

text \<open>The specification's wording: \<open>clamp(100 * (1 - keep_ratio), 0, 99)\<close>.\<close>

definition clamp :: "real \<Rightarrow> real \<Rightarrow> real \<Rightarrow> real" where
  "clamp x lo hi = (if x < lo then lo else if hi < x then hi else x)"

definition spec_remove_percent :: "real \<Rightarrow> nat \<Rightarrow> real" where
  "spec_remove_percent base_percent i = clamp (100 * (1 - (base_percent / 100) ^ i)) 0 99"

lemma remove_percent_refines_spec:
  "remove_percent b i = spec_remove_percent b i"
  by (simp add: remove_percent_def spec_remove_percent_def clamp_def Let_def algebra_simps
      max_def min_def)

lemma keep_ratio_antimono:
  fixes r :: real
  assumes "0 \<le> r" "r \<le> 1" "i \<le> j"
  shows "r ^ j \<le> r ^ i"
  using assms by (simp add: power_decreasing)

lemma remove_percent_mono:
  assumes "0 < b" "b < 100" "i \<le> j"
  shows "remove_percent b i \<le> remove_percent b j"
proof -
  have r: "0 \<le> b / 100" "b / 100 \<le> 1" using assms by simp_all
  have "(b / 100) ^ j \<le> (b / 100) ^ i"
    using keep_ratio_antimono[OF r assms(3)] .
  then show ?thesis
    by (simp add: remove_percent_def Let_def max_def min_def)
qed

lemma remove_percent_range: "0 \<le> remove_percent b i \<and> remove_percent b i \<le> 99"
  by (simp add: remove_percent_def Let_def max_def min_def)

lemma remove_percent_50:
  "remove_percent 50 1 = 50 \<and> remove_percent 50 2 = 75 \<and> remove_percent 50 3 = 87.5"
  by (simp add: remove_percent_def Let_def power2_eq_square power3_eq_cube)

text \<open>
  C6. For every \<open>base_percent\<close> strictly between 0 and 100 and every level \<open>i \<ge> 1\<close>, the
  planned removal percentage computed by the publisher is
  \<open>clamp(100 * (1 - (base_percent / 100) ^ i), 0, 99)\<close>, lies in \<open>[0, 99]\<close>, and does not
  decrease when the level grows; at \<open>base_percent = 50\<close> the levels 1, 2, 3 give 50, 75
  and 87.5, and these are the values the level loop hands to the exporter.
\<close>

theorem remove_percent_plan:
  assumes "0 < b" and "b < 100" and "1 \<le> i"
  shows "remove_percent b i = spec_remove_percent b i
       \<and> 0 \<le> remove_percent b i \<and> remove_percent b i \<le> 99
       \<and> (\<forall>j. i \<le> j \<longrightarrow> remove_percent b i \<le> remove_percent b j)
       \<and> planned_remove_percents 50 3 = [50, 75, 87.5]"
proof -
  have "planned_remove_percents 50 3 = [remove_percent 50 1, remove_percent 50 2, remove_percent 50 3]"
    by (simp add: planned_remove_percents_def upt_rec numeral_2_eq_2 numeral_3_eq_3)
  then have "planned_remove_percents 50 3 = [50, 75, 87.5]"
    using remove_percent_50 by simp
  then show ?thesis
    using remove_percent_refines_spec remove_percent_range remove_percent_mono[OF assms(1,2)]
    by simp
qed

theorem remove_percent_plan_witness:
  "remove_percent 50 1 = spec_remove_percent 50 1
   \<and> remove_percent 50 1 \<le> remove_percent 50 2
   \<and> remove_percent 50 2 \<le> remove_percent 50 3
   \<and> remove_percent 50 3 \<le> 99"
proof -
  have h: "(0::real) < 50" "(50::real) < 100" "(1::nat) \<le> 1" "(1::nat) \<le> 2" by simp_all
  have a: "remove_percent 50 1 = spec_remove_percent 50 1
       \<and> 0 \<le> remove_percent 50 1 \<and> remove_percent 50 1 \<le> 99
       \<and> (\<forall>j. 1 \<le> j \<longrightarrow> remove_percent 50 1 \<le> remove_percent 50 j)
       \<and> planned_remove_percents 50 3 = [50, 75, 87.5]"
    using remove_percent_plan[OF h(1) h(2) h(3)] .
  show ?thesis using a remove_percent_50 by simp
qed

section \<open>Version allocator\<close>

text \<open>
  \<open>_next_version_folder(parent_dir)\<close> (25.12.7; \<open>get_publish_paths\<close> of 26.02.03 repeats
  the scan):
  \<^verbatim>\<open>
    if not os.path.isdir(parent_dir): os.makedirs(parent_dir)
    pat = re.compile(r'^v(\d{3,})$', re.IGNORECASE)
    max_n = 0
    for name in os.listdir(parent_dir):
        full = os.path.join(parent_dir, name)
        if os.path.isdir(full):
            m = pat.match(name)
            if m:
                n = int(m.group(1))
                if n > max_n: max_n = n
    ver = f'v{(max_n+1):03d}'
    ver_path = os.path.join(parent_dir, ver)
    if not os.path.isdir(ver_path): os.makedirs(ver_path)
    return ver, ver_path
  \<close>
\<close>

definition is_digit :: "char \<Rightarrow> bool" where
  "is_digit c = (48 \<le> (of_char c :: nat) \<and> (of_char c :: nat) \<le> 57)"

definition digit_val :: "char \<Rightarrow> nat" where
  "digit_val c = of_char c - 48"

text \<open>\<open>int(s)\<close> on a string of decimal digits.\<close>

definition int_of_digits :: "string \<Rightarrow> nat" where
  "int_of_digits s = foldl (\<lambda>a c. 10 * a + digit_val c) 0 s"

text \<open>\<open>f'{n:03d}'\<close>: decimal, padded on the left with zeros to width 3, wider when needed.\<close>

definition fmt03d :: "nat \<Rightarrow> string" where
  "fmt03d n = replicate (3 - length (str_nat n)) (CHR ''0'') @ str_nat n"

text \<open>
  \<open>pat.match(name)\<close> and \<open>int(m.group(1))\<close>: a letter \<open>v\<close> or \<open>V\<close>, then three or more
  digits up to the end of the name. Python's \<open>$\<close> also matches just before one final
  newline, which then stays outside the group.
\<close>

definition version_match :: "string \<Rightarrow> nat option" where
  "version_match name =
     (case name of
        [] \<Rightarrow> None
      | c # rest \<Rightarrow>
          if c = CHR ''v'' \<or> c = CHR ''V'' then
            (let ds = (if rest \<noteq> [] \<and> last rest = CHR 0x0A then butlast rest else rest)
             in if 3 \<le> length ds \<and> list_all is_digit ds then Some (int_of_digits ds) else None)
          else None)"

text \<open>
  The parent directory as the allocator sees it: missing but creatable, missing and not
  creatable (\<open>os.makedirs\<close> raises), or present with its entries, each a name and whether
  \<open>os.path.isdir\<close> holds of it. Names are compared exactly.
\<close>

datatype parent_dir = Absent | Blocked | Present "(string \<times> bool) list"

definition isdir :: "(string \<times> bool) list \<Rightarrow> string \<Rightarrow> bool" where
  "isdir listing name = (map_of listing name = Some True)"

fun scan_max :: "(string \<times> bool) list \<Rightarrow> string list \<Rightarrow> nat \<Rightarrow> nat" where
  "scan_max listing [] max_n = max_n"
| "scan_max listing (name # names) max_n =
     (if isdir listing name then
        (case version_match name of
           Some n \<Rightarrow> if n > max_n then scan_max listing names n else scan_max listing names max_n
         | None \<Rightarrow> scan_max listing names max_n)
      else scan_max listing names max_n)"

text \<open>
  The result is the label, the path \<open>os.path.join(parent_dir, ver)\<close> (\<open>join_path\<close> stands
  for \<open>os.path.join\<close>) and the parent directory afterwards. \<open>os.makedirs(ver_path)\<close> raises
  \<open>FileExistsError\<close> when the label names an entry that is not a directory.
\<close>

definition next_version_folder ::
  "(string \<Rightarrow> string \<Rightarrow> string) \<Rightarrow> string \<Rightarrow> parent_dir \<Rightarrow> error + (string \<times> string \<times> parent_dir)" where
  "next_version_folder join_path parent_dir st =
     (case (case st of
              Present l \<Rightarrow> Inr l
            | Absent \<Rightarrow> Inr []
            | Blocked \<Rightarrow> Inl (OSError parent_dir)) of
        Inl e \<Rightarrow> Inl e
      | Inr listing \<Rightarrow>
          (let max_n = scan_max listing (map fst listing) 0;
               ver = ''v'' @ fmt03d (max_n + 1);
               ver_path = join_path parent_dir ver
           in if isdir listing ver then Inr (ver, ver_path, Present listing)
              else if ver \<in> fst ` set listing then Inl (FileExistsError ver_path)
              else Inr (ver, ver_path, Present (listing @ [(ver, True)]))))"

text \<open>
  The specification's wording: the maximum over all existing entries whose names are
  \<open>v\<close> followed by three or more digits, whatever their kind.
\<close>

definition spec_label_match :: "string \<Rightarrow> nat option" where
  "spec_label_match name =
     (case name of
        [] \<Rightarrow> None
      | c # ds \<Rightarrow>
          if (c = CHR ''v'' \<or> c = CHR ''V'') \<and> 3 \<le> length ds \<and> list_all is_digit ds
          then Some (int_of_digits ds) else None)"

definition spec_next_label :: "string list \<Rightarrow> string" where
  "spec_next_label names = ''v'' @ fmt03d (Max (set (0 # List.map_filter spec_label_match names)) + 1)"

text \<open>The versions the scan counts: those of the sub-directories whose names match.\<close>

definition dir_versions :: "(string \<times> bool) list \<Rightarrow> nat list" where
  "dir_versions listing =
     List.map_filter (\<lambda>name. if isdir listing name then version_match name else None)
       (map fst listing)"

definition listing_of :: "parent_dir \<Rightarrow> (string \<times> bool) list" where
  "listing_of st = (case st of Present l \<Rightarrow> l | _ \<Rightarrow> [])"

text \<open>The label one above the largest version among the sub-directories.\<close>

definition next_dir_label :: "(string \<times> bool) list \<Rightarrow> string" where
  "next_dir_label listing = ''v'' @ fmt03d (Max (set (0 # dir_versions listing)) + 1)"

subsection \<open>Decimal strings\<close>

lemma of_char_digit_char: "d < 10 \<Longrightarrow> (of_char (digit_char d) :: nat) = 48 + d"
  by (simp add: digit_char_def)

lemma is_digit_digit_char: "d < 10 \<Longrightarrow> is_digit (digit_char d)"
  by (simp add: is_digit_def of_char_digit_char)

lemma digit_val_digit_char: "d < 10 \<Longrightarrow> digit_val (digit_char d) = d"
  by (simp add: digit_val_def of_char_digit_char)

lemma int_of_digits_snoc: "int_of_digits (s @ [c]) = 10 * int_of_digits s + digit_val c"
  by (simp add: int_of_digits_def)

lemma str_nat_digits: "list_all is_digit (str_nat n)"
proof (induction n rule: str_nat.induct)
  case (1 n)
  show ?case
  proof (cases "n < 10")
    case True
    then show ?thesis by (subst str_nat.simps) (simp add: is_digit_digit_char)
  next
    case False
    then show ?thesis using 1 by (subst str_nat.simps) (simp add: is_digit_digit_char)
  qed
qed

lemma str_nat_nonempty: "str_nat n \<noteq> []"
  by (subst str_nat.simps) simp

lemma int_of_str_nat: "int_of_digits (str_nat n) = n"
proof (induction n rule: str_nat.induct)
  case (1 n)
  show ?case
  proof (cases "n < 10")
    case True
    then show ?thesis
      by (subst str_nat.simps) (simp add: int_of_digits_def digit_val_digit_char)
  next
    case False
    then have "int_of_digits (str_nat (n div 10)) = n div 10" using 1 by simp
    then show ?thesis using False
      by (subst str_nat.simps) (simp add: int_of_digits_snoc digit_val_digit_char)
  qed
qed

lemma str_nat_inj: "str_nat m = str_nat n \<Longrightarrow> m = n"
  by (metis int_of_str_nat)

lemma is_digit_zero: "is_digit (CHR ''0'')"
  by (simp add: is_digit_def)

lemma foldl_zeros:
  "foldl (\<lambda>a c. 10 * a + digit_val c) 0 (replicate k (CHR ''0'')) = 0"
  by (induction k) (simp_all add: digit_val_def)

lemma int_of_fmt03d: "int_of_digits (fmt03d n) = n"
  using int_of_str_nat[of n] by (simp add: fmt03d_def int_of_digits_def foldl_zeros)

lemma fmt03d_digits: "list_all is_digit (fmt03d n)"
  using str_nat_digits[of n] by (auto simp: fmt03d_def list_all_iff is_digit_zero)

lemma fmt03d_length: "3 \<le> length (fmt03d n)"
  by (simp add: fmt03d_def)

lemma is_digit_not_newline: "is_digit c \<Longrightarrow> c \<noteq> CHR 0x0A"
  by (auto simp: is_digit_def)

lemma fmt03d_last: "last (fmt03d n) \<noteq> CHR 0x0A"
proof -
  have "fmt03d n \<noteq> []" using fmt03d_length[of n] by auto
  then have "last (fmt03d n) \<in> set (fmt03d n)" by simp
  then have "is_digit (last (fmt03d n))" using fmt03d_digits[of n] by (simp add: list_all_iff)
  then show ?thesis by (rule is_digit_not_newline)
qed

lemma version_match_label: "version_match (''v'' @ fmt03d n) = Some n"
proof -
  have "fmt03d n \<noteq> []" using fmt03d_length[of n] by auto
  then show ?thesis
    using fmt03d_last[of n] fmt03d_length[of n] fmt03d_digits[of n] int_of_fmt03d[of n]
    by (simp add: version_match_def Let_def)
qed

subsection \<open>The scan and the label\<close>

lemma scan_max_Max:
  "scan_max listing names m =
     Max (set (m # List.map_filter (\<lambda>name. if isdir listing name then version_match name else None) names))"
proof (induction names arbitrary: m)
  case Nil
  then show ?case by (simp add: List.map_filter_simps)
next
  case (Cons name names)
  let ?f = "\<lambda>name. if isdir listing name then version_match name else None"
  show ?case
  proof (cases "?f name")
    case None
    then show ?thesis using Cons[of m]
      by (auto simp: List.map_filter_simps split: if_splits)
  next
    case (Some n)
    then have dir: "isdir listing name" and vm: "version_match name = Some n"
      by (auto split: if_splits)
    have "Max (insert m (insert n (set (List.map_filter ?f names)))) =
          Max (insert (max m n) (set (List.map_filter ?f names)))"
      by (cases "set (List.map_filter ?f names) = {}") (simp_all add: max.assoc max.commute)
    then show ?thesis using dir vm Cons[of n] Cons[of m]
      by (simp add: List.map_filter_simps max_def insert_commute)
  qed
qed

lemma scan_max_dir_versions:
  "scan_max listing (map fst listing) 0 = Max (set (0 # dir_versions listing))"
  by (simp add: scan_max_Max dir_versions_def)

lemma dir_versions_member:
  "n \<in> set (dir_versions listing) \<longleftrightarrow>
     (\<exists>name \<in> fst ` set listing. isdir listing name \<and> version_match name = Some n)"
proof -
  let ?f = "\<lambda>name. if isdir listing name then version_match name else None"
  have "n \<in> set (List.map_filter ?f names) \<longleftrightarrow>
        (\<exists>name \<in> set names. isdir listing name \<and> version_match name = Some n)" for names
    by (induction names) (auto simp: List.map_filter_simps split: option.splits if_splits)
  then show ?thesis by (simp add: dir_versions_def)
qed

lemma next_dir_label_not_a_directory: "\<not> isdir listing (next_dir_label listing)"
proof
  let ?m = "Max (set (0 # dir_versions listing))"
  assume dir: "isdir listing (next_dir_label listing)"
  then have "next_dir_label listing \<in> fst ` set listing"
    by (auto simp: isdir_def dest: map_of_SomeD intro: rev_image_eqI)
  moreover have "version_match (next_dir_label listing) = Some (?m + 1)"
    unfolding next_dir_label_def by (rule version_match_label)
  ultimately have "\<exists>name \<in> fst ` set listing. isdir listing name \<and> version_match name = Some (?m + 1)"
    using dir by blast
  then have "?m + 1 \<in> set (dir_versions listing)"
    by (simp only: dir_versions_member)
  then have "?m + 1 \<le> ?m" by (intro Max_ge) simp_all
  then show False by simp
qed

lemma next_version_folder_eq:
  assumes "st \<noteq> Blocked"
  shows "next_version_folder jp p st =
     (if next_dir_label (listing_of st) \<in> fst ` set (listing_of st)
      then Inl (FileExistsError (jp p (next_dir_label (listing_of st))))
      else Inr (next_dir_label (listing_of st), jp p (next_dir_label (listing_of st)),
                Present (listing_of st @ [(next_dir_label (listing_of st), True)])))"
proof -
  have l: "(case st of Present l \<Rightarrow> Inr l | Absent \<Rightarrow> Inr [] | Blocked \<Rightarrow> Inl (OSError p))
           = Inr (listing_of st)"
    using assms by (cases st) (simp_all add: listing_of_def)
  have lab: "''v'' @ fmt03d (scan_max (listing_of st) (map fst (listing_of st)) 0 + 1)
             = next_dir_label (listing_of st)"
    by (simp add: next_dir_label_def scan_max_dir_versions)
  show ?thesis
    unfolding next_version_folder_def l
    using next_dir_label_not_a_directory[of "listing_of st"] lab
    by (simp add: Let_def)
qed

lemma next_version_folder_fresh:
  assumes "next_version_folder jp p st = Inr (ver, path, st')"
  shows "ver \<notin> fst ` set (listing_of st)"
proof (cases "st = Blocked")
  case True
  then show ?thesis using assms by (simp add: next_version_folder_def)
next
  case False
  then show ?thesis
    using assms next_version_folder_eq[OF False, of jp p] by (auto split: if_splits)
qed

lemma next_version_folder_v001:
  "next_version_folder jp p Absent = Inr (''v001'', jp p ''v001'', Present [(''v001'', True)])
   \<and> next_version_folder jp p (Present []) = Inr (''v001'', jp p ''v001'', Present [(''v001'', True)])"
  by code_simp

lemma next_version_folder_v005:
  "next_version_folder jp p (Present [(''v001'', True), (''v002'', True), (''v004'', True)])
   = Inr (''v005'', jp p ''v005'',
          Present [(''v001'', True), (''v002'', True), (''v004'', True), (''v005'', True)])"
  by code_simp

text \<open>
  C8, as stated, fails where an entry that is not a directory carries a version name:
  with the sub-directory \<open>v001\<close> and the regular file \<open>v007\<close> the allocator returns
  \<open>v002\<close>, and the maximum over all matching entries would give \<open>v008\<close>.
\<close>

theorem next_version_folder_skips_files:
  "next_version_folder (\<lambda>a b. a @ ''/'' @ b) ''pub'' (Present [(''v001'', True), (''v007'', False)])
     = Inr (''v002'', ''pub/v002'', Present [(''v001'', True), (''v007'', False), (''v002'', True)])
   \<and> spec_next_label (map fst [(''v001'', True), (''v007'', False)]) = ''v008''"
  by code_simp

text \<open>
  C8, amended. For every parent directory that exists or can be created, the allocator
  computes the label \<open>v(max+1)\<close>, where \<open>max\<close> is the largest value among the existing
  sub-directories whose names match \<open>v\<close> followed by three or more digits, case
  insensitively (0 if there is none; entries that are not directories are not counted).
  It returns that label, its path and the parent with the new directory, unless the label
  names an existing entry that is not a directory, where creating the directory raises.
  The label is \<open>v\<close> followed by the decimal digits of \<open>max+1\<close> padded with zeros to at
  least three digits, it never names a sub-directory, and a returned label is never the
  name of an entry of the scanned parent. An empty or missing parent gives \<open>v001\<close>, and a
  parent with the sub-directories \<open>v001\<close>, \<open>v002\<close>, \<open>v004\<close> gives \<open>v005\<close>.
\<close>

theorem next_version_folder_directories:
  assumes "st \<noteq> Blocked"
  shows "next_version_folder jp p st =
           (if next_dir_label (listing_of st) \<in> fst ` set (listing_of st)
            then Inl (FileExistsError (jp p (next_dir_label (listing_of st))))
            else Inr (next_dir_label (listing_of st), jp p (next_dir_label (listing_of st)),
                      Present (listing_of st @ [(next_dir_label (listing_of st), True)])))
       \<and> \<not> isdir (listing_of st) (next_dir_label (listing_of st))
       \<and> (\<forall>ver path st'. next_version_folder jp p st = Inr (ver, path, st')
             \<longrightarrow> ver \<notin> fst ` set (listing_of st))
       \<and> 3 \<le> length (fmt03d n) \<and> list_all is_digit (fmt03d n) \<and> int_of_digits (fmt03d n) = n
       \<and> next_version_folder jp p Absent = Inr (''v001'', jp p ''v001'', Present [(''v001'', True)])
       \<and> next_version_folder jp p (Present []) = Inr (''v001'', jp p ''v001'', Present [(''v001'', True)])
       \<and> next_version_folder jp p (Present [(''v001'', True), (''v002'', True), (''v004'', True)])
           = Inr (''v005'', jp p ''v005'',
                  Present [(''v001'', True), (''v002'', True), (''v004'', True), (''v005'', True)])"
  using next_version_folder_eq[OF assms, of jp p] next_dir_label_not_a_directory[of "listing_of st"]
    next_version_folder_fresh[of jp p st] fmt03d_length[of n] fmt03d_digits[of n] int_of_fmt03d[of n]
    next_version_folder_v001[of jp p] next_version_folder_v005[of jp p]
  by blast

theorem next_version_folder_directories_witness:
  "Present [(''v001'', True), (''V012'', True), (''v3'', True), (''v020'', False)] \<noteq> Blocked
   \<and> next_version_folder (\<lambda>a b. a @ ''/'' @ b) ''pub''
        (Present [(''v001'', True), (''V012'', True), (''v3'', True), (''v020'', False)])
      = Inr (''v013'', ''pub/v013'',
             Present [(''v001'', True), (''V012'', True), (''v3'', True), (''v020'', False), (''v013'', True)])
   \<and> \<not> isdir [(''v001'', True), (''V012'', True), (''v3'', True), (''v020'', False)]
          (next_dir_label [(''v001'', True), (''V012'', True), (''v3'', True), (''v020'', False)])"
proof -
  let ?l = "[(''v001'', True), (''V012'', True), (''v3'', True), (''v020'', False)]"
  have h: "Present ?l \<noteq> Blocked" by simp
  have run: "next_version_folder (\<lambda>a b. a @ ''/'' @ b) ''pub'' (Present ?l)
      = Inr (''v013'', ''pub/v013'',
             Present [(''v001'', True), (''V012'', True), (''v3'', True), (''v020'', False), (''v013'', True)])"
    by code_simp
  have l: "listing_of (Present ?l) = ?l" by (simp add: listing_of_def)
  have "\<not> isdir (listing_of (Present ?l)) (next_dir_label (listing_of (Present ?l)))"
    using next_version_folder_directories[OF h, of "\<lambda>a b. a @ ''/'' @ b" "''pub''" 0]
    by (rule conjunct2[THEN conjunct1])
  then have nd: "\<not> isdir ?l (next_dir_label ?l)" unfolding l .
  show ?thesis by (rule conjI[OF h conjI[OF run nd]])
qed

section \<open>Layers, documents and the composed stage\<close>

text \<open>
  A prim path \<open>/a/b\<close> is the list of its components \<open>[a, b]\<close>. A layer holds a default
  prim name, an ordered sublayer list (index 0 strongest) and the paths of the prim specs
  authored in it. Saved layers live in a store keyed by identifier.
\<close>

type_synonym sdf_path = "string list"

record layer =
  defaultPrim :: string
  subLayerPaths :: "string list"
  primSpecs :: "sdf_path list"

type_synonym layer_store = "string \<rightharpoonup> layer"

text \<open>
  What the USD library decides and the source cannot: whether \<open>Sdf.Layer.CreateNew\<close>
  yields a layer, and what the asset resolver answers (\<open>''''\<close> when it cannot resolve).
\<close>

record usd_env =
  can_create :: "string \<Rightarrow> bool"
  resolve :: "string \<Rightarrow> string"

text \<open>\<open>resolver.Resolve(p) or p\<close>.\<close>

definition resolve_or :: "usd_env \<Rightarrow> string \<Rightarrow> string" where
  "resolve_or env p = (if resolve env p = [] then p else resolve env p)"

text \<open>
  Assigning \<open>layer.subLayerPaths\<close>: the library's list editor refuses a list that holds
  the same path twice (a duplicate item is not allowed for the field \<open>subLayers\<close>) and
  reports it as an error, which Python raises as \<open>Tf.ErrorException\<close>. A list of
  pairwise different paths is stored as given.
\<close>

definition set_subLayerPaths :: "string list \<Rightarrow> layer \<Rightarrow> error + layer" where
  "set_subLayerPaths subs lyr =
     (if distinct subs then Inr (lyr\<lparr>subLayerPaths := subs\<rparr>) else Inl ErrorException)"

subsection \<open>The payload contents layer\<close>

text \<open>
  \<^verbatim>\<open>
  def _write_payload_contents_layer(top_name, proxy_path, shd_path, out_path):
      out_path = out_path.replace("\\", "/")
      lyr = Sdf.Layer.CreateNew(out_path)
      if not lyr: raise RuntimeError(f"Cannot create payload layer: {out_path}")
      lyr.defaultPrim = top_name
      lyr.subLayerPaths = [proxy_path.replace("\\", "/"), shd_path.replace("\\", "/")]
      lyr.Save()
      return out_path
  \<close>
\<close>

definition write_payload_contents_layer ::
  "usd_env \<Rightarrow> string \<Rightarrow> string \<Rightarrow> string \<Rightarrow> string \<Rightarrow> layer_store \<Rightarrow> error + (string \<times> layer_store)" where
  "write_payload_contents_layer env top_name proxy_path shd_path out_path store =
     (let out_path = replace_backslash out_path
      in if \<not> can_create env out_path
         then Inl (RuntimeError (''Cannot create payload layer: '' @ out_path))
         else
           (case set_subLayerPaths [replace_backslash proxy_path, replace_backslash shd_path]
                   \<lparr>defaultPrim = top_name, subLayerPaths = [], primSpecs = []\<rparr> of
              Inl e \<Rightarrow> Inl e
            | Inr lyr \<Rightarrow> Inr (out_path, store(out_path \<mapsto> lyr))))"

subsection \<open>The composed stage\<close>

text \<open>
  A prim of the composed stage, with what the rebinding pass reads of it: its path, the
  answers of \<open>IsA(UsdShade.Material)\<close>, \<open>IsA(UsdGeom.Mesh)\<close> and
  \<open>MaterialBindingAPI.CanApply\<close>, whether \<open>_get_defining_layer_for_prim\<close> finds a spec,
  whether it is one of the material-bind subsets of its parent mesh, and its relationships
  by name with their targets. The direct binding is the relationship \<open>material:binding\<close>.
  Custom data, purpose and binding strength are written by the pass and never read; they
  are left out.
\<close>

record prim =
  prim_path :: sdf_path
  is_material :: bool
  is_mesh :: bool
  can_apply_binding :: bool
  has_defining_spec :: bool
  is_bind_subset :: bool
  rels :: "(string \<times> sdf_path list) list"

definition HasPrefix :: "sdf_path \<Rightarrow> sdf_path \<Rightarrow> bool" where
  "HasPrefix p pre = (take (length pre) p = pre)"

definition GetName :: "sdf_path \<Rightarrow> string" where
  "GetName p = (if p = [] then [] else last p)"

definition GetPrimAtPath :: "prim list \<Rightarrow> sdf_path \<Rightarrow> prim option" where
  "GetPrimAtPath stage p = find (\<lambda>q. prim_path q = p) stage"

definition update_prim :: "sdf_path \<Rightarrow> (prim \<Rightarrow> prim) \<Rightarrow> prim list \<Rightarrow> prim list" where
  "update_prim p f stage = map (\<lambda>q. if prim_path q = p then f q else q) stage"

text \<open>
  A spec copied into the strongest layer shows in the composed stage: at a path that
  already holds a prim it takes its place, otherwise the stage gains a prim (listed last).
\<close>

definition put_prim :: "prim list \<Rightarrow> prim \<Rightarrow> prim list" where
  "put_prim stage new =
     (if prim_path new \<in> prim_path ` set stage
      then map (\<lambda>q. if prim_path q = prim_path new then new else q) stage
      else stage @ [new])"

text \<open>\<open>Sdf.CreatePrimInLayer(layer, path)\<close> creates the spec and its missing ancestors.\<close>

definition create_prim_in_layer :: "sdf_path list \<Rightarrow> sdf_path \<Rightarrow> sdf_path list" where
  "create_prim_in_layer specs path =
     foldl (\<lambda>s p. if p \<in> set s then s else s @ [p]) specs
       (map (\<lambda>k. take k path) [1 ..< length path + 1])"

subsection \<open>Copying materials into the override layer\<close>

text \<open>
  \<^verbatim>\<open>
  dst = mtl_parent.AppendChild(base)
  i = 1
  while meta_layer.GetPrimAtPath(dst):
      dst = mtl_parent.AppendChild(f"{base}_r{i}")
      i += 1
  \<close>
  The loop ends because the layer holds finitely many specs and the candidate names are
  pairwise different.
\<close>

definition candidate :: "sdf_path \<Rightarrow> string \<Rightarrow> nat \<Rightarrow> sdf_path" where
  "candidate mtl_parent base i = mtl_parent @ [base @ ''_r'' @ str_nat i]"

lemma candidate_inj: "inj (candidate mtl_parent base)"
  by (auto simp: inj_on_def candidate_def dest: str_nat_inj)

lemma candidates_finite: "finite {j. candidate mtl_parent base j \<in> set specs}"
proof -
  have "{j. candidate mtl_parent base j \<in> set specs} = candidate mtl_parent base -` set specs"
    by auto
  then show ?thesis by (simp add: finite_vimageI candidate_inj)
qed

function free_dst :: "sdf_path list \<Rightarrow> sdf_path \<Rightarrow> string \<Rightarrow> nat \<Rightarrow> sdf_path \<Rightarrow> sdf_path" where
  "free_dst specs mtl_parent base i dst =
     (if dst \<in> set specs
      then free_dst specs mtl_parent base (i + 1) (candidate mtl_parent base i)
      else dst)"
  by pat_completeness auto
termination
proof (relation "measure (\<lambda>(specs, mtl_parent, base, i, dst).
          2 * card {j. i \<le> j \<and> candidate mtl_parent base j \<in> set specs}
          + (if dst \<in> set specs then 1 else 0))", goal_cases)
  case 1
  then show ?case by simp
next
  case (2 specs mtl_parent base i dst)
  let ?A = "\<lambda>k. {j. k \<le> j \<and> candidate mtl_parent base j \<in> set specs}"
  have fin: "finite (?A k)" for k
    by (rule finite_subset[OF _ candidates_finite[of mtl_parent base specs]]) auto
  show ?case
  proof (cases "candidate mtl_parent base i \<in> set specs")
    case True
    have "?A i = insert i (?A (i + 1))" using True by (auto simp: le_Suc_eq)
    moreover have "i \<notin> ?A (i + 1)" by simp
    ultimately have "card (?A i) = Suc (card (?A (i + 1)))"
      using fin[of "i + 1"] by simp
    then show ?thesis using 2 True by simp
  next
    case False
    have "j \<noteq> i" if "candidate mtl_parent base j \<in> set specs" for j
      using that False by auto
    then have "?A i = ?A (i + 1)" by (auto simp: Suc_le_eq le_less)
    then show ?thesis using 2 False by simp
  qed
qed

declare free_dst.simps [simp del]

record copy_state =
  meta_specs :: "sdf_path list"
  remap :: "sdf_path \<rightharpoonup> sdf_path"
  copied :: nat
  copies :: "prim list"

text \<open>
  \<^verbatim>\<open>
  for prim in stg.TraverseAll():
      if prim.IsA(UsdShade.Material) and not prim.GetPath().HasPrefix(top_path):
          src_layer, src_path = _get_defining_layer_for_prim(prim)
          if not src_layer: continue
          base = prim.GetName()
          dst = ... (the loop above)
          Sdf.CopySpec(src_layer, src_path, meta_layer, dst)
          mat_remap[prim.GetPath()] = dst
          copied_mats += 1
  \<close>
  The copy is the source prim at the new path. The specs below \<open>dst\<close> that come with the
  copied subtree are not listed: a candidate is a child of \<open>mtl_parent\<close> and cannot meet
  them.
\<close>

fun copy_materials :: "sdf_path \<Rightarrow> sdf_path \<Rightarrow> prim list \<Rightarrow> copy_state \<Rightarrow> copy_state" where
  "copy_materials top_path mtl_parent [] st = st"
| "copy_materials top_path mtl_parent (p # ps) st =
     (if is_material p \<and> \<not> HasPrefix (prim_path p) top_path then
        (if \<not> has_defining_spec p then copy_materials top_path mtl_parent ps st
         else
           (let base = GetName (prim_path p);
                dst = free_dst (meta_specs st) mtl_parent base 1 (mtl_parent @ [base])
            in copy_materials top_path mtl_parent ps
                 (st\<lparr>meta_specs := meta_specs st @ [dst],
                     remap := (remap st)(prim_path p \<mapsto> dst),
                     copied := copied st + 1,
                     copies := copies st @ [p\<lparr>prim_path := dst\<rparr>]\<rparr>)))
      else copy_materials top_path mtl_parent ps st)"

subsection \<open>Rewriting the bindings\<close>

text \<open>\<open>mat_remap.get(old, old)\<close>.\<close>

definition remap_get :: "(sdf_path \<rightharpoonup> sdf_path) \<Rightarrow> sdf_path \<Rightarrow> sdf_path" where
  "remap_get m old = (case m old of Some new \<Rightarrow> new | None \<Rightarrow> old)"

definition SetTargets :: "string \<Rightarrow> sdf_path list \<Rightarrow> prim \<Rightarrow> prim" where
  "SetTargets name tgts q =
     q\<lparr>rels := map (\<lambda>(n, t). if n = name then (n, tgts) else (n, t)) (rels q)\<rparr>"

text \<open>
  The direct binding of a prim, when the relationship exists and has targets
  (\<open>if rel:\<close> and \<open>if tgts:\<close>): the first target, the only one the pass reads.
\<close>

definition direct_target :: "prim \<Rightarrow> sdf_path option" where
  "direct_target q =
     (case map_of (rels q) ''material:binding'' of
        Some (old # _) \<Rightarrow> Some old
      | _ \<Rightarrow> None)"

text \<open>
  \<^verbatim>\<open>
  old = tgts[0]
  new = mat_remap.get(old, old)
  rel.ClearTargets(True)
  rel.SetTargets([new])
  \<close>
\<close>

definition rebind_direct :: "(sdf_path \<rightharpoonup> sdf_path) \<Rightarrow> prim \<Rightarrow> prim" where
  "rebind_direct m q =
     (case direct_target q of
        None \<Rightarrow> q
      | Some old \<Rightarrow> SetTargets ''material:binding'' [remap_get m old] q)"

text \<open>\<open>mb_mesh.GetMaterialBindSubsets()\<close>: the bind subsets that are children of the mesh.\<close>

definition GetMaterialBindSubsets :: "prim list \<Rightarrow> sdf_path \<Rightarrow> sdf_path list" where
  "GetMaterialBindSubsets stage mesh =
     map prim_path (filter (\<lambda>s. is_bind_subset s \<and> prim_path s \<noteq> [] \<and> butlast (prim_path s) = mesh) stage)"

text \<open>
  The second traversal: for each prim the direct binding (when the binding API can be
  applied), then, for a mesh, the loop over its bind subsets:
  \<^verbatim>\<open>
  mb_mesh = _UsdShade.MaterialBindingAPI(prim)
  for subset in mb_mesh.GetMaterialBindSubsets():
      _ensure_over_prim(meta_layer, subset.GetPath())
      _UsdShade.MaterialBindingAPI.Apply(subset)
      ...
      subset_rebind_count += 1
  \<close>
  \<open>GetMaterialBindSubsets\<close> yields \<open>UsdGeom.Subset\<close> objects and
  \<open>MaterialBindingAPI.Apply\<close> takes a prim: the call raises \<open>ArgumentError\<close> in the first
  round of the loop, outside any \<open>try\<close>. So a mesh with a bind subset ends the pass with
  that error, after its own direct binding was rewritten, and the rest of the loop body
  (the rewriting of the subset's binding, the increment of \<open>subset_rebind_count\<close>) is
  never reached. The state is the stage with \<open>rebind_count\<close>.
\<close>

fun rebind_loop ::
  "(sdf_path \<rightharpoonup> sdf_path) \<Rightarrow> sdf_path list \<Rightarrow> prim list \<times> nat \<Rightarrow> error + (prim list \<times> nat)" where
  "rebind_loop m [] st = Inr st"
| "rebind_loop m (p # ps) (stage, rc) =
     (case GetPrimAtPath stage p of
        None \<Rightarrow> rebind_loop m ps (stage, rc)
      | Some q \<Rightarrow>
          (let (stage1, rc1) =
                 (if can_apply_binding q \<and> direct_target q \<noteq> None
                  then (update_prim p (rebind_direct m) stage, rc + 1)
                  else (stage, rc))
           in if is_mesh q \<and> GetMaterialBindSubsets stage1 p \<noteq> []
              then Inl ArgumentError
              else rebind_loop m ps (stage1, rc1)))"

text \<open>
  The third traversal, over the relationships whose names start with
  \<open>material:binding:collection\<close>:
  \<^verbatim>\<open>
  targets = rel.GetTargets()
  if len(targets) < 2: continue
  material_path, collection_path = None, None
  for tgt in targets:
      prim_tgt = stg.GetPrimAtPath(tgt)
      if prim_tgt and prim_tgt.IsA(_UsdShade.Material): material_path = tgt
      else: collection_path = tgt
  if not material_path or not collection_path: continue
  new_mat = mat_remap.get(material_path, material_path)
  rel.SetTargets([collection_path, new_mat])
  \<close>
\<close>

definition is_collection_binding :: "string \<Rightarrow> bool" where
  "is_collection_binding name =
     (take (length ''material:binding:collection'') name = ''material:binding:collection'')"

definition is_material_at :: "prim list \<Rightarrow> sdf_path \<Rightarrow> bool" where
  "is_material_at stage t = (case GetPrimAtPath stage t of Some q \<Rightarrow> is_material q | None \<Rightarrow> False)"

fun classify_targets ::
  "prim list \<Rightarrow> sdf_path list \<Rightarrow> sdf_path option \<times> sdf_path option \<Rightarrow> sdf_path option \<times> sdf_path option" where
  "classify_targets stage [] acc = acc"
| "classify_targets stage (tgt # tgts) (material_path, collection_path) =
     (if is_material_at stage tgt
      then classify_targets stage tgts (Some tgt, collection_path)
      else classify_targets stage tgts (material_path, Some tgt))"

text \<open>One relationship: its new targets and whether it was rewritten.\<close>

definition rebind_collection ::
  "(sdf_path \<rightharpoonup> sdf_path) \<Rightarrow> prim list \<Rightarrow> string \<times> sdf_path list \<Rightarrow> (string \<times> sdf_path list) \<times> bool" where
  "rebind_collection m stage r =
     (case r of (name, targets) \<Rightarrow>
        if \<not> is_collection_binding name then (r, False)
        else if length targets < 2 then (r, False)
        else (case classify_targets stage targets (None, None) of
                (Some material_path, Some collection_path) \<Rightarrow>
                  ((name, [collection_path, remap_get m material_path]), True)
              | _ \<Rightarrow> (r, False)))"

definition rebind_collections_of ::
  "(sdf_path \<rightharpoonup> sdf_path) \<Rightarrow> prim list \<Rightarrow> prim \<Rightarrow> prim \<times> nat" where
  "rebind_collections_of m stage q =
     (let rs = map (rebind_collection m stage) (rels q)
      in (q\<lparr>rels := map fst rs\<rparr>, length (filter snd rs)))"

fun collection_loop ::
  "(sdf_path \<rightharpoonup> sdf_path) \<Rightarrow> sdf_path list \<Rightarrow> prim list \<times> nat \<Rightarrow> prim list \<times> nat" where
  "collection_loop m [] st = st"
| "collection_loop m (p # ps) (stage, cc) =
     (case GetPrimAtPath stage p of
        None \<Rightarrow> collection_loop m ps (stage, cc)
      | Some q \<Rightarrow>
          (let (q', k) = rebind_collections_of m stage q
           in collection_loop m ps (update_prim p (\<lambda>_. q') stage, cc + k)))"

text \<open>
  The override placeholders (\<open>_ensure_over_prim\<close>) the two traversals leave in the layer
  when the pass returns: one for each prim the binding API can be applied to and one for
  each prim with a collection binding. (The placeholder of a bind subset is made just
  before the call that raises.)
\<close>

definition over_paths :: "prim list \<Rightarrow> sdf_path list" where
  "over_paths stage =
     map prim_path
       (filter (\<lambda>q. can_apply_binding q \<or> (\<exists>r \<in> set (rels q). is_collection_binding (fst r)))
          stage)"

subsection \<open>The pass\<close>

text \<open>
  A document: the saved layers, and the prims composed from the sublayers of the payload
  other than the override layer (the exported fragments, which the pass never writes).
\<close>

record document =
  layers :: layer_store
  weak :: "prim list"

record rebind_result =
  document_after :: document
  stage_after :: "prim list"
  mat_remap :: "sdf_path \<rightharpoonup> sdf_path"
  copied_mats :: nat
  rebind_count :: nat
  subset_rebind_count :: nat
  coll_rebind_count :: nat

text \<open>The copy traversal, from the two placeholders for the top prim and its \<open>mtl\<close> scope.\<close>

definition copy_pass :: "string \<Rightarrow> prim list \<Rightarrow> copy_state" where
  "copy_pass top_name stage0 =
     (let top_path = [top_name];
          mtl_parent = top_path @ [''mtl'']
      in copy_materials top_path mtl_parent stage0
           \<lparr>meta_specs = create_prim_in_layer (create_prim_in_layer [] top_path) mtl_parent,
            remap = Map.empty, copied = 0, copies = []\<rparr>)"

text \<open>The composed stage the rebinding traversals walk: the exported prims and the copies.\<close>

definition stage_with_copies :: "string \<Rightarrow> prim list \<Rightarrow> prim list" where
  "stage_with_copies top_name stage0 = foldl put_prim stage0 (copies (copy_pass top_name stage0))"

text \<open>
  The body of \<open>_author_meta_and_fix_materials\<close> once the stage is open: the copy
  traversal and the two rebinding traversals. It yields the override layer, the composed
  stage, \<open>mat_remap\<close> and the four counters; \<open>subset_rebind_count\<close> is the \<open>0\<close> it was
  initialised with.
\<close>

definition fix_materials ::
  "string \<Rightarrow> prim list \<Rightarrow>
     error + (layer \<times> prim list \<times> (sdf_path \<rightharpoonup> sdf_path) \<times> nat \<times> nat \<times> nat \<times> nat)" where
  "fix_materials top_name stage0 =
     (let cs = copy_pass top_name stage0;
          stage1 = stage_with_copies top_name stage0
      in case rebind_loop (remap cs) (map prim_path stage1) (stage1, 0) of
           Inl e \<Rightarrow> Inl e
         | Inr (stage2, rc) \<Rightarrow>
             (let (stage3, cc) = collection_loop (remap cs) (map prim_path stage2) (stage2, 0);
                  meta_layer = \<lparr>defaultPrim = [], subLayerPaths = [],
                                primSpecs = foldl create_prim_in_layer (meta_specs cs) (over_paths stage1)\<rparr>
              in Inr (meta_layer, stage3, remap cs, copied cs, rc, 0, cc)))"

text \<open>
  \<open>_author_meta_and_fix_materials(top_name, payload_usdc, meta_out_path)\<close> (25.12.7).
  \<^verbatim>\<open>
    payload_layer = Sdf.Layer.FindOrOpen(payload_usdc.replace("\\", "/"))
    if not payload_layer: raise RuntimeError("Cannot open payload layer")
    meta_layer = Sdf.Layer.CreateNew(meta_out_path.replace("\\", "/"))
    resolver = Ar.GetResolver()
    meta_id_norm = resolver.Resolve(meta_layer.identifier) or meta_layer.identifier
    subs = list(payload_layer.subLayerPaths)
    subs_norm = [resolver.Resolve(p) or p for p in subs]
    if meta_id_norm not in subs_norm:
        subs.insert(0, meta_id_norm)
        payload_layer.subLayerPaths = subs
        payload_layer.Save()
    stg = Usd.Stage.Open(payload_layer)
    stg.SetEditTarget(meta_layer)
  \<close>
  The override layer is made by \<open>Sdf.Layer.CreateNew\<close>, so it starts empty whatever an
  earlier run left at that path, and the stage opened on the payload shows the prims of
  the other sublayers. Where \<open>CreateNew\<close> yields nothing, \<open>meta_layer.identifier\<close> raises.
\<close>

definition author_meta_and_fix_materials ::
  "usd_env \<Rightarrow> string \<Rightarrow> string \<Rightarrow> string \<Rightarrow> document \<Rightarrow> error + rebind_result" where
  "author_meta_and_fix_materials env top_name payload_usdc meta_out_path doc =
     (case layers doc (replace_backslash payload_usdc) of
        None \<Rightarrow> Inl (RuntimeError ''Cannot open payload layer'')
      | Some payload_layer \<Rightarrow>
          (let meta_id = replace_backslash meta_out_path
           in if \<not> can_create env meta_id then Inl AttributeError
              else
                (let meta_id_norm = resolve_or env meta_id;
                     subs = subLayerPaths payload_layer;
                     subs_norm = map (resolve_or env) subs
                 in case (if meta_id_norm \<notin> set subs_norm
                          then set_subLayerPaths (meta_id_norm # subs) payload_layer
                          else Inr payload_layer) of
                      Inl e \<Rightarrow> Inl e
                    | Inr payload_layer' \<Rightarrow>
                        (case fix_materials top_name (weak doc) of
                           Inl e \<Rightarrow> Inl e
                         | Inr (meta_layer, stage, m, cm, rc, sc, cc) \<Rightarrow>
                             Inr \<lparr>document_after =
                                    \<lparr>layers = (layers doc)(replace_backslash payload_usdc \<mapsto> payload_layer',
                                                            meta_id \<mapsto> meta_layer),
                                     weak = weak doc\<rparr>,
                                  stage_after = stage,
                                  mat_remap = m,
                                  copied_mats = cm,
                                  rebind_count = rc,
                                  subset_rebind_count = sc,
                                  coll_rebind_count = cc\<rparr>))))"





subsection \<open>The publish driver, as far as the payload stack\<close>

text \<open>
  \<open>export_lookdev_with_payload_and_interface\<close> (25.12.7), steps 2 to 4. The exporter's
  fragments are outside the model: \<open>exported\<close> stands for the prims they compose to.
  \<^verbatim>\<open>
    version_dir = version_dir.replace('\\', '/')
    shd_path     = f"{version_dir}/shd.usdc"
    proxy_path   = f"{version_dir}/proxy.usdc"
    payload_usdc = f"{version_dir}/payload.usdc"
    meta_usdc    = f"{version_dir}/meta.usdc"
    if add_proxy: ... (export proxy.usdc)
    else: proxy_path = shd_path  # fallback so payload still builds (no proxy)
    _write_payload_contents_layer(top_name, proxy_path, shd_path, payload_usdc)
    _author_meta_and_fix_materials(top_name, payload_usdc, meta_usdc)
  \<close>
\<close>

definition export_lookdev_with_payload_and_interface ::
  "usd_env \<Rightarrow> string \<Rightarrow> string \<Rightarrow> bool \<Rightarrow> prim list \<Rightarrow> layer_store \<Rightarrow> error + rebind_result" where
  "export_lookdev_with_payload_and_interface env top_name version_dir add_proxy exported store =
     (let version_dir = replace_backslash version_dir;
          shd_path = version_dir @ ''/shd.usdc'';
          proxy_path = version_dir @ ''/proxy.usdc'';
          payload_usdc = version_dir @ ''/payload.usdc'';
          meta_usdc = version_dir @ ''/meta.usdc'';
          proxy_path = (if add_proxy then proxy_path else shd_path)
      in case write_payload_contents_layer env top_name proxy_path shd_path payload_usdc store of
           Inl e \<Rightarrow> Inl e
         | Inr (out_path, store') \<Rightarrow>
             author_meta_and_fix_materials env top_name payload_usdc meta_usdc
               \<lparr>layers = store', weak = exported\<rparr>)"

text \<open>The sublayer stack of the payload document a publish leaves.\<close>

definition payload_stack :: "string \<Rightarrow> rebind_result \<Rightarrow> string list option" where
  "payload_stack version_dir r =
     map_option subLayerPaths
       (layers (document_after r) (replace_backslash version_dir @ ''/payload.usdc''))"

subsection \<open>Example inputs\<close>

text \<open>A library that creates every layer, with a resolver that answers the path it is given.\<close>

definition plain_env :: usd_env where
  "plain_env = \<lparr>can_create = (\<lambda>_. True), resolve = (\<lambda>p. p)\<rparr>"

text \<open>
  An exported asset \<open>/A\<close> with one mesh \<open>/A/geo\<close> bound to the material \<open>/mtl/M\<close>, which
  the exporter wrote outside the asset's scope.
\<close>

definition exported_asset :: "prim list" where
  "exported_asset =
     [\<lparr>prim_path = [''A''], is_material = False, is_mesh = False, can_apply_binding = True,
       has_defining_spec = True, is_bind_subset = False, rels = []\<rparr>,
      \<lparr>prim_path = [''A'', ''geo''], is_material = False, is_mesh = True, can_apply_binding = True,
       has_defining_spec = True, is_bind_subset = False,
       rels = [(''material:binding'', [[''mtl'', ''M'']])]\<rparr>,
      \<lparr>prim_path = [''mtl''], is_material = False, is_mesh = False, can_apply_binding = True,
       has_defining_spec = True, is_bind_subset = False, rels = []\<rparr>,
      \<lparr>prim_path = [''mtl'', ''M''], is_material = True, is_mesh = False, can_apply_binding = True,
       has_defining_spec = True, is_bind_subset = False, rels = []\<rparr>]"



subsection \<open>Properties of the payload contents layer\<close>

lemma replace_backslash_append:
  "replace_backslash (a @ b) = replace_backslash a @ replace_backslash b"
  by (simp add: replace_backslash_def)

lemma replace_backslash_id: "CHR 0x5C \<notin> set s \<Longrightarrow> replace_backslash s = s"
  by (induction s) (auto simp: replace_backslash_def)

lemma replace_backslash_free: "CHR 0x5C \<notin> set (replace_backslash s)"
  by (induction s) (auto simp: replace_backslash_def)

lemma replace_backslash_idem: "replace_backslash (replace_backslash s) = replace_backslash s"
  by (rule replace_backslash_id[OF replace_backslash_free])




subsection \<open>Properties of the rebinding pass\<close>


















subsection \<open>The payload stack of a publish\<close>

lemma version_paths_differ:
  "replace_backslash (version_dir @ ''/payload.usdc'') \<noteq> replace_backslash (version_dir @ ''/meta.usdc'')"
  by (simp add: replace_backslash_append) (simp add: replace_backslash_def)

text \<open>
  With the proxy option on, the publish leaves the stack the driver documents: the
  override layer, the proxy, the base shading layer.
\<close>

lemma publish_with_proxy_stack:
  "map_sum id (payload_stack ''pub/v001'')
     (export_lookdev_with_payload_and_interface plain_env ''A'' ''pub/v001'' True
        exported_asset Map.empty)
     = Inr (Some [''pub/v001/meta.usdc'', ''pub/v001/proxy.usdc'', ''pub/v001/shd.usdc''])"
  by code_simp

text \<open>
  C3. With the proxy option off the driver puts the base shading layer in the slot of the
  absent proxy (\<open>proxy_path = shd_path  # fallback so payload still builds (no proxy)\<close>),
  so \<open>_write_payload_contents_layer\<close> assigns the sublayer list
  \<open>[shd_path, shd_path]\<close>. The library refuses the repeated path: for every version
  directory, top prim, exported stage and store, the publish raises when it writes the
  payload contents layer (or before, where the layer cannot be created) and leaves no
  payload document, instead of the stack of the override layer and the base shading
  layer.
\<close>

theorem publish_without_proxy_raises:
  "export_lookdev_with_payload_and_interface env top_name version_dir False exported store
     = (if can_create env (replace_backslash version_dir @ ''/payload.usdc'')
        then Inl ErrorException
        else Inl (RuntimeError (''Cannot create payload layer: ''
                                  @ replace_backslash version_dir @ ''/payload.usdc'')))"
proof -
  have rb: "replace_backslash (replace_backslash version_dir @ s) = replace_backslash version_dir @ replace_backslash s" for s
    by (simp add: replace_backslash_append replace_backslash_idem)
  have p: "replace_backslash ''/payload.usdc'' = ''/payload.usdc''"
    by (simp add: replace_backslash_def)
  show ?thesis
    by (simp add: export_lookdev_with_payload_and_interface_def write_payload_contents_layer_def
        set_subLayerPaths_def Let_def rb p)
qed

theorem publish_without_proxy_raises_witness:
  "export_lookdev_with_payload_and_interface plain_env ''A'' ''pub/v001'' False exported_asset Map.empty
     = Inl ErrorException"
  using publish_without_proxy_raises[of plain_env "''A''" "''pub/v001''" exported_asset Map.empty]
  by (simp add: plain_env_def)


section \<open>Variant sets\<close>

text \<open>
  A reference authored on a prim: the owner, the referenced layer and, when given, the
  prim path inside it. A variant set holds its variants in the order they were added,
  each with the references authored inside it, and the current selection.
\<close>

record reference =
  ref_owner :: sdf_path
  ref_asset :: string
  ref_prim :: "sdf_path option"

record variant_set =
  variants :: "(string \<times> reference list) list"
  selection :: string

definition empty_variant_set :: variant_set where
  "empty_variant_set = \<lparr>variants = [], selection = []\<rparr>"

text \<open>\<open>vset.AddVariant(name)\<close>: a name already in the set is not added again.\<close>

definition AddVariant :: "string \<Rightarrow> variant_set \<Rightarrow> variant_set" where
  "AddVariant name vs =
     (if name \<in> fst ` set (variants vs) then vs else vs\<lparr>variants := variants vs @ [(name, [])]\<rparr>)"

definition SetVariantSelection :: "string \<Rightarrow> variant_set \<Rightarrow> variant_set" where
  "SetVariantSelection name vs = vs\<lparr>selection := name\<rparr>"

text \<open>
  \<open>with vset.GetVariantEditContext(): ...\<close>: the edits of the body land in the selected
  variant.
\<close>

definition in_variant_edit_context :: "(reference list \<Rightarrow> reference list) \<Rightarrow> variant_set \<Rightarrow> variant_set" where
  "in_variant_edit_context body vs =
     vs\<lparr>variants := map (\<lambda>(n, refs). if n = selection vs then (n, body refs) else (n, refs))
                       (variants vs)\<rparr>"

definition ClearReferences :: "sdf_path \<Rightarrow> reference list \<Rightarrow> reference list" where
  "ClearReferences owner refs = filter (\<lambda>r. ref_owner r \<noteq> owner) refs"

definition AddReference :: "reference \<Rightarrow> reference list \<Rightarrow> reference list" where
  "AddReference r refs = (if r \<in> set refs then refs else refs @ [r])"

definition lod_name :: "nat \<Rightarrow> string" where
  "lod_name i = ''LOD'' @ str_nat i"

subsection \<open>The geometry variant layer of 25.12.7\<close>

text \<open>
  \<^verbatim>\<open>
  def _create_variant_layer(top_name, payload_path, lod_wrap_paths, variant_path):
      variant_path = variant_path.replace("\\", "/")
      lyr = Sdf.Layer.CreateNew(variant_path)
      if not lyr: raise RuntimeError(f"Cannot create variant layer: {variant_path}")
      stg = Usd.Stage.Open(lyr)
      prim = stg.DefinePrim(f"/{top_name}", "Xform")
      vset = prim.GetVariantSets().AddVariantSet("levels")
      vset.AddVariant("LOD0")
      vset.SetVariantSelection("LOD0")
      with vset.GetVariantEditContext():
          prim.GetReferences().ClearReferences()
          prim.GetReferences().AddReference(payload_path, f"/{top_name}")
      for i, wrap_path in enumerate(lod_wrap_paths):
          lod_name = f"LOD{i+1}"
          vset.AddVariant(lod_name)
          vset.SetVariantSelection(lod_name)
          with vset.GetVariantEditContext():
              prim.GetReferences().ClearReferences()
              prim.GetReferences().AddReference(wrap_path, f"/{top_name}")
      vset.SetVariantSelection("LOD0")
      ...
      return variant_path
  \<close>
\<close>

definition author_variant :: "string \<Rightarrow> string \<Rightarrow> string \<Rightarrow> variant_set \<Rightarrow> variant_set" where
  "author_variant top_name name asset vs =
     in_variant_edit_context
       (\<lambda>refs. AddReference \<lparr>ref_owner = [top_name], ref_asset = asset, ref_prim = Some [top_name]\<rparr>
                 (ClearReferences [top_name] refs))
       (SetVariantSelection name (AddVariant name vs))"

fun add_lod_wraps :: "string \<Rightarrow> nat \<Rightarrow> string list \<Rightarrow> variant_set \<Rightarrow> variant_set" where
  "add_lod_wraps top_name i [] vs = vs"
| "add_lod_wraps top_name i (wrap_path # rest) vs =
     add_lod_wraps top_name (i + 1) rest (author_variant top_name (lod_name (i + 1)) wrap_path vs)"

definition create_variant_layer ::
  "usd_env \<Rightarrow> string \<Rightarrow> string \<Rightarrow> string list \<Rightarrow> string \<Rightarrow> error + (string \<times> variant_set)" where
  "create_variant_layer env top_name payload_path lod_wrap_paths variant_path =
     (let variant_path = replace_backslash variant_path
      in if \<not> can_create env variant_path
         then Inl (RuntimeError (''Cannot create variant layer: '' @ variant_path))
         else
           (let vset = author_variant top_name ''LOD0'' payload_path empty_variant_set;
                vset = add_lod_wraps top_name 0 lod_wrap_paths vset;
                vset = SetVariantSelection ''LOD0'' vset
            in Inr (variant_path, vset)))"

subsection \<open>Assembly in 26.02.03\<close>

text \<open>
  The paths dictionary of \<open>get_publish_paths\<close>, as far as assembly reads it, and what the
  assembly finds on disk: \<open>on_disk\<close> is \<open>os.path.exists\<close>; \<open>find_or_open\<close> is the outcome
  of \<open>Sdf.Layer.FindOrOpen\<close> on a file (a layer, no layer, or, for a file the library
  cannot read, an error, which Python raises as \<open>Tf.ErrorException\<close>);
  \<open>relpath file geoFile\<close> stands for
  \<open>os.path.relpath(file, os.path.dirname(geoFile)).replace("\\", "/")\<close>;
  \<open>material_names\<close> are the names of the \<open>Material\<close> prims a layer holds;
  \<open>mesh_bindings\<close> are the meshes a layer composes under the top prim, each with its
  custom data \<open>bindingMat\<close> (\<open>''''\<close> when it has none). The layers the assembly itself
  creates in the new version directory are taken to be created.
\<close>

record publish_paths =
  top_name :: string
  version_dir :: string
  geoVariant_dir :: string
  shdVariant_dir :: string

datatype open_result = Opened | NoLayer | Unreadable

record disk =
  on_disk :: "string \<Rightarrow> bool"
  find_or_open :: "string \<Rightarrow> open_result"
  relpath :: "string \<Rightarrow> string \<Rightarrow> string"
  material_names :: "string \<Rightarrow> string list"
  mesh_bindings :: "string \<Rightarrow> (sdf_path \<times> string) list"

text \<open>
  \<open>referenceToVariantEditContext(variantSet, renderFile, geoFile, top_name, isLOD0, isShd)\<close>:
  a shader variant references \<open>/mtl\<close> of the file under the scope \<open>mtl\<close> of the root prim;
  a geometry variant references the file on the root prim, at \<open>/top_name\<close> for LOD0 and
  at the file's default prim otherwise.
\<close>

definition referenceToVariantEditContext ::
  "disk \<Rightarrow> sdf_path \<Rightarrow> string \<Rightarrow> string \<Rightarrow> string \<Rightarrow> bool \<Rightarrow> bool \<Rightarrow> variant_set \<Rightarrow> variant_set" where
  "referenceToVariantEditContext d root_prim renderFile geoFile tn isLOD0 isShd vs =
     (let rel_render = relpath d renderFile geoFile
      in in_variant_edit_context
           (if isShd
            then AddReference \<lparr>ref_owner = root_prim @ [''mtl''], ref_asset = rel_render,
                               ref_prim = Some [''mtl'']\<rparr>
            else if isLOD0
            then AddReference \<lparr>ref_owner = root_prim, ref_asset = rel_render, ref_prim = Some [tn]\<rparr>
            else AddReference \<lparr>ref_owner = root_prim, ref_asset = rel_render, ref_prim = None\<rparr>)
           vs)"

text \<open>
  \<open>geoUsdExport\<close>: a new \<open>geo.usdc\<close> whose sublayers are the proxy fragment when it is on
  disk, and nothing otherwise. The result is the sublayer list and the disk afterwards.
\<close>

definition geoUsdExport :: "disk \<Rightarrow> string \<Rightarrow> string list \<times> disk" where
  "geoUsdExport d folderPath =
     (let geoFile = folderPath @ ''/geo.usdc'';
          proxyFile = folderPath @ ''/proxy.usdc'';
          subs = (if on_disk d proxyFile then [relpath d proxyFile geoFile] else [])
      in (subs, d\<lparr>on_disk := (on_disk d)(geoFile := True)\<rparr>))"

text \<open>
  \<^verbatim>\<open>
  def addGeoVariantsIntoGeoUsd(rootPrimPath, folderPath, paths, lod_count):
      geoFile = f"{pathFolder}/geo.usdc"; renderFile = f"{pathFolder}/render.usdc"
      if not os.path.exists(geoFile): return
      ...
      vset = rootPrim.GetVariantSets().AddVariantSet("levels")
      vset.AddVariant("LOD0"); vset.SetVariantSelection("LOD0")
      referenceToVariantEditContext(vset, renderFile, geoFile, top_name, isLOD0=True, isShd=False)
      for i in range(1, lod_count + 1):
          lod_name = f"LOD{i}"
          lod_file_path = f"{paths['geoVariant_dir']}/geoVariant_geoLOD{i}.usdc"
          if not os.path.exists(lod_file_path): continue
          vset.AddVariant(lod_name); vset.SetVariantSelection(lod_name)
          referenceToVariantEditContext(vset, lod_file_path, geoFile, top_name, isLOD0=False, isShd=False)
      vset.SetVariantSelection("LOD0")
  \<close>
\<close>

definition geo_lod_file :: "publish_paths \<Rightarrow> nat \<Rightarrow> string" where
  "geo_lod_file paths i = geoVariant_dir paths @ ''/geoVariant_geoLOD'' @ str_nat i @ ''.usdc''"

fun geo_lod_loop ::
  "disk \<Rightarrow> sdf_path \<Rightarrow> string \<Rightarrow> publish_paths \<Rightarrow> nat list \<Rightarrow> variant_set \<Rightarrow> variant_set" where
  "geo_lod_loop d rootPrim geoFile paths [] vs = vs"
| "geo_lod_loop d rootPrim geoFile paths (i # rest) vs =
     (if \<not> on_disk d (geo_lod_file paths i) then geo_lod_loop d rootPrim geoFile paths rest vs
      else geo_lod_loop d rootPrim geoFile paths rest
             (referenceToVariantEditContext d rootPrim (geo_lod_file paths i) geoFile (top_name paths)
                False False
                (SetVariantSelection (lod_name i) (AddVariant (lod_name i) vs))))"

definition addGeoVariantsIntoGeoUsd ::
  "disk \<Rightarrow> sdf_path \<Rightarrow> string \<Rightarrow> publish_paths \<Rightarrow> nat \<Rightarrow> variant_set option" where
  "addGeoVariantsIntoGeoUsd d rootPrimPath folderPath paths lod_count =
     (let geoFile = folderPath @ ''/geo.usdc'';
          renderFile = folderPath @ ''/render.usdc''
      in if \<not> on_disk d geoFile then None
         else
           (let vset = SetVariantSelection ''LOD0'' (AddVariant ''LOD0'' empty_variant_set);
                vset = referenceToVariantEditContext d rootPrimPath renderFile geoFile
                         (top_name paths) True False vset;
                vset = geo_lod_loop d rootPrimPath geoFile paths [1 ..< lod_count + 1] vset
            in Some (SetVariantSelection ''LOD0'' vset)))"

text \<open>
  \<^verbatim>\<open>
  def clean_shader_file(dirty_path, clean_path):
      if not os.path.exists(dirty_path): return False
      src_layer = Sdf.Layer.FindOrOpen(dirty_path)
      if not src_layer: return False
      dst_layer = Sdf.Layer.CreateNew(clean_path, args={'format':'usdc'})
      ... (copy every Material prim of the source to /mtl/<name> in the new layer)
      dst_layer.Save()
      return True
  \<close>
  A fragment that is on disk and cannot be read makes \<open>FindOrOpen\<close> raise, outside any
  \<open>try\<close>. The clean file holds the materials of the fragment, under \<open>/mtl\<close>.
\<close>

definition clean_shader_file :: "disk \<Rightarrow> string \<Rightarrow> string \<Rightarrow> error + bool" where
  "clean_shader_file d dirty_path clean_path =
     (if \<not> on_disk d dirty_path then Inr False
      else case find_or_open d dirty_path of
             Unreadable \<Rightarrow> Inl ErrorException
           | NoLayer \<Rightarrow> Inr False
           | Opened \<Rightarrow> Inr True)"

text \<open>
  \<^verbatim>\<open>
  def addShdVariantsIntoShdUsd(rootPrimPath, folderPath, paths):
      shdFile = f"{pathFolder}/shd.usdc"
      if os.path.exists(shdFile): stage = Usd.Stage.Open(shdFile)
      else: stage = Usd.Stage.CreateNew(shdFile)
      ...
      vset = rootPrim.GetVariantSets().AddVariantSet("mtl")
      def process_shd_lod(lod_name, dirty_file_path):
          clean_file_path = f"{paths['shdVariant_dir']}/shdVariant_{lod_name}_CLEAN.usdc"
          if os.path.exists(dirty_file_path):
              if clean_shader_file(dirty_file_path, clean_file_path):
                  vset.AddVariant(lod_name); vset.SetVariantSelection(lod_name)
                  referenceToVariantEditContext(vset, clean_file_path, shdFile, top_name, isLOD0=False, isShd=True)
      process_shd_lod("LOD0", f"{paths['shdVariant_dir']}/shdVariant_shdLOD0.usdc")
      for i in [2, 4, 10]:
          process_shd_lod(f"LOD{i}", f"{paths['shdVariant_dir']}/shdVariant_shdLOD{i}.usdc")
      vset.SetVariantSelection("LOD0")
  \<close>
  A \<open>shd.usdc\<close> already on disk brings the variant set it holds (\<open>existing\<close>).
\<close>

definition shd_lod_file :: "publish_paths \<Rightarrow> nat \<Rightarrow> string" where
  "shd_lod_file paths i = shdVariant_dir paths @ ''/shdVariant_shdLOD'' @ str_nat i @ ''.usdc''"

definition clean_file :: "publish_paths \<Rightarrow> string \<Rightarrow> string" where
  "clean_file paths name = shdVariant_dir paths @ ''/shdVariant_'' @ name @ ''_CLEAN.usdc''"

definition process_shd_lod ::
  "disk \<Rightarrow> sdf_path \<Rightarrow> string \<Rightarrow> publish_paths \<Rightarrow> string \<Rightarrow> string \<Rightarrow> variant_set
     \<Rightarrow> error + variant_set" where
  "process_shd_lod d rootPrim shdFile paths name dirty_file_path vs =
     (let clean_file_path = clean_file paths name
      in if \<not> on_disk d dirty_file_path then Inr vs
         else case clean_shader_file d dirty_file_path clean_file_path of
                Inl e \<Rightarrow> Inl e
              | Inr cleaned \<Rightarrow>
                  if cleaned
                  then Inr (referenceToVariantEditContext d rootPrim clean_file_path shdFile
                              (top_name paths) False True
                              (SetVariantSelection name (AddVariant name vs)))
                  else Inr vs)"

fun shd_lod_loop ::
  "disk \<Rightarrow> sdf_path \<Rightarrow> string \<Rightarrow> publish_paths \<Rightarrow> nat list \<Rightarrow> variant_set \<Rightarrow> error + variant_set" where
  "shd_lod_loop d rootPrim shdFile paths [] vs = Inr vs"
| "shd_lod_loop d rootPrim shdFile paths (i # rest) vs =
     (case process_shd_lod d rootPrim shdFile paths (lod_name i) (shd_lod_file paths i) vs of
        Inl e \<Rightarrow> Inl e
      | Inr vs' \<Rightarrow> shd_lod_loop d rootPrim shdFile paths rest vs')"

definition addShdVariantsIntoShdUsd ::
  "disk \<Rightarrow> sdf_path \<Rightarrow> string \<Rightarrow> publish_paths \<Rightarrow> variant_set \<Rightarrow> error + variant_set" where
  "addShdVariantsIntoShdUsd d rootPrimPath folderPath paths existing =
     (let shdFile = folderPath @ ''/shd.usdc''
      in case process_shd_lod d rootPrimPath shdFile paths ''LOD0'' (shd_lod_file paths 0) existing of
           Inl e \<Rightarrow> Inl e
         | Inr vset \<Rightarrow>
             (case shd_lod_loop d rootPrimPath shdFile paths [2, 4, 10] vset of
                Inl e \<Rightarrow> Inl e
              | Inr vset \<Rightarrow> Inr (SetVariantSelection ''LOD0'' vset)))"

text \<open>
  \<^verbatim>\<open>
  def bind_materials_in_payload(payload_path, top_node_name):
      stage = Usd.Stage.Open(payload_path)
      root_prim = stage.GetPrimAtPath(f"/{top_node_name}")
      mtl_root_path = root_prim.GetPath().AppendChild("mtl")
      edits = 0
      for prim in stage.Traverse():
          if prim.IsA(UsdGeom.Mesh):
              target_mat_name = prim.GetCustomDataByKey("bindingMat")
              if target_mat_name:
                  mat_path = mtl_root_path.AppendChild(target_mat_name)
                  binding_api = UsdShade.MaterialBindingAPI.Apply(prim)
                  binding_api.Bind(UsdShade.Material(stage.GetPrimAtPath(mat_path)))
                  edits += 1
      if edits > 0: stage.GetRootLayer().Save()
  \<close>
  The stage is the payload, which references \<open>./shd.usdc\<close> and \<open>./geo.usdc\<close> on the top
  prim. Its meshes with a \<open>bindingMat\<close> are those of \<open>render.usdc\<close>, which the selected
  variant \<open>LOD0\<close> of the \<open>levels\<close> set references (the export of the base geometry writes
  the custom data; the proxy export does not). The materials under the scope \<open>mtl\<close> of the
  top prim are those of the selected variant of the \<open>mtl\<close> set: the variant \<open>name\<close>
  references \<open>/mtl\<close> of the clean file of \<open>name\<close>, which holds the materials of the fragment
  \<open>shdVariant_shd<name>.usdc\<close>; without that variant, or without \<open>shd.usdc\<close>, the scope
  has no material.

  Where no material of the wanted name is composed, \<open>stage.GetPrimAtPath(mat_path)\<close> is
  an invalid prim and the material made from it has the empty path; \<open>Bind\<close> then asks the
  binding relationship to target the empty path, which the library refuses with a coding
  error, and Python raises it (\<open>Tf.ErrorException\<close>), outside any \<open>try\<close> of the assembly.
\<close>

definition composed_materials :: "disk \<Rightarrow> publish_paths \<Rightarrow> variant_set option \<Rightarrow> string list" where
  "composed_materials d paths mtl =
     (case mtl of
        None \<Rightarrow> []
      | Some vs \<Rightarrow>
          if selection vs \<in> fst ` set (variants vs)
          then material_names d (shdVariant_dir paths @ ''/shdVariant_shd'' @ selection vs @ ''.usdc'')
          else [])"

definition composed_meshes :: "disk \<Rightarrow> publish_paths \<Rightarrow> (sdf_path \<times> string) list" where
  "composed_meshes d paths =
     (let renderFile = version_dir paths @ ''/render.usdc''
      in if on_disk d renderFile then mesh_bindings d renderFile else [])"

fun bind_loop ::
  "sdf_path \<Rightarrow> string list \<Rightarrow> (sdf_path \<times> string) list \<Rightarrow> (sdf_path \<times> sdf_path) list
     \<Rightarrow> error + (sdf_path \<times> sdf_path) list" where
  "bind_loop mtl_root_path mats [] bound = Inr bound"
| "bind_loop mtl_root_path mats ((mesh, target_mat_name) # rest) bound =
     (if target_mat_name = [] then bind_loop mtl_root_path mats rest bound
      else if target_mat_name \<notin> set mats then Inl ErrorException
      else bind_loop mtl_root_path mats rest (bound @ [(mesh, mtl_root_path @ [target_mat_name])]))"

definition bind_materials_in_payload ::
  "disk \<Rightarrow> publish_paths \<Rightarrow> variant_set option \<Rightarrow> error + (sdf_path \<times> sdf_path) list" where
  "bind_materials_in_payload d paths mtl =
     bind_loop [top_name paths, ''mtl''] (composed_materials d paths mtl) (composed_meshes d paths) []"

text \<open>
  The assembly of \<open>run_local_publish\<close> (steps 5 to 7) and of the farm worker's \<open>assemble\<close>
  task: the geometry layer, its \<open>levels\<close> set, the \<open>mtl\<close> set when texture LODs were
  asked for, the payload, which always references \<open>./shd.usdc\<close> and \<open>./geo.usdc\<close>, and
  the material bindings. An error of a step ends the assembly.
  \<^verbatim>\<open>
    geoUsdExport(f"/{top_name}", paths['version_dir'])
    addGeoVariantsIntoGeoUsd(f"/{top_name}", paths['version_dir'], paths, lod_count)
    if do_tex:
        addShdVariantsIntoShdUsd(f"/{top_name}", paths['version_dir'], paths)
    payload_file = create_payload_file(paths['top_name'], paths['version_dir'])
    bind_materials_in_payload(payload_file, paths['top_name'])
  \<close>
\<close>

record assembled =
  geo_sublayers :: "string list"
  levels_set :: "variant_set option"
  mtl_set :: "variant_set option"
  payload_references :: "string list"
  material_bindings :: "(sdf_path \<times> sdf_path) list"

definition assemble :: "disk \<Rightarrow> publish_paths \<Rightarrow> nat \<Rightarrow> bool \<Rightarrow> error + assembled" where
  "assemble d paths lod_count do_tex =
     (let rootPrim = [top_name paths];
          (subs, d1) = geoUsdExport d (version_dir paths);
          levels = addGeoVariantsIntoGeoUsd d1 rootPrim (version_dir paths) paths lod_count
      in case (if do_tex
               then map_sum id Some
                      (addShdVariantsIntoShdUsd d1 rootPrim (version_dir paths) paths empty_variant_set)
               else Inr None) of
           Inl e \<Rightarrow> Inl e
         | Inr mtl \<Rightarrow>
             (case bind_materials_in_payload d1 paths mtl of
                Inl e \<Rightarrow> Inl e
              | Inr bound \<Rightarrow>
                  Inr \<lparr>geo_sublayers = subs, levels_set = levels, mtl_set = mtl,
                       payload_references = [''./shd.usdc'', ''./geo.usdc''],
                       material_bindings = bound\<rparr>))"

text \<open>
  A shader fragment the assembly can use (on disk, and it opens), and one that is on disk
  and cannot be read.
\<close>

definition usable :: "disk \<Rightarrow> string \<Rightarrow> bool" where
  "usable d f = (on_disk d f \<and> find_or_open d f = Opened)"

definition unreadable :: "disk \<Rightarrow> string \<Rightarrow> bool" where
  "unreadable d f = (on_disk d f \<and> find_or_open d f = Unreadable)"

text \<open>The references the assembly authors in the variants of the two sets.\<close>

definition geo_variant :: "disk \<Rightarrow> publish_paths \<Rightarrow> nat \<Rightarrow> string \<times> reference list" where
  "geo_variant d paths i =
     (lod_name i,
      [\<lparr>ref_owner = [top_name paths],
        ref_asset = relpath d (geo_lod_file paths i) (version_dir paths @ ''/geo.usdc''),
        ref_prim = None\<rparr>])"

definition base_variant :: "disk \<Rightarrow> publish_paths \<Rightarrow> string \<times> reference list" where
  "base_variant d paths =
     (''LOD0'',
      [\<lparr>ref_owner = [top_name paths],
        ref_asset = relpath d (version_dir paths @ ''/render.usdc'') (version_dir paths @ ''/geo.usdc''),
        ref_prim = Some [top_name paths]\<rparr>])"

definition shd_variant :: "disk \<Rightarrow> publish_paths \<Rightarrow> nat \<Rightarrow> string \<times> reference list" where
  "shd_variant d paths i =
     (lod_name i,
      [\<lparr>ref_owner = [top_name paths, ''mtl''],
        ref_asset = relpath d (clean_file paths (lod_name i)) (version_dir paths @ ''/shd.usdc''),
        ref_prim = Some [''mtl'']\<rparr>])"

subsection \<open>Properties of variant authoring\<close>

lemma lod_name_inj: "lod_name i = lod_name j \<longleftrightarrow> i = j"
  by (auto simp: lod_name_def dest: str_nat_inj)

lemma LOD0_is_lod_name: "''LOD0'' = lod_name 0"
  by code_simp

lemma names_in_variant_edit_context:
  "map fst (variants (in_variant_edit_context body vs)) = map fst (variants vs)"
  by (induction "variants vs") (auto simp: in_variant_edit_context_def split: prod.splits)

lemma selection_in_variant_edit_context:
  "selection (in_variant_edit_context body vs) = selection vs"
  by (simp add: in_variant_edit_context_def)

lemma names_AddVariant:
  "map fst (variants (AddVariant name vs)) =
     (if name \<in> set (map fst (variants vs)) then map fst (variants vs)
      else map fst (variants vs) @ [name])"
  by (simp add: AddVariant_def)

lemma names_SetVariantSelection:
  "map fst (variants (SetVariantSelection name vs)) = map fst (variants vs)"
  by (simp add: SetVariantSelection_def)

lemma names_author_variant:
  "map fst (variants (author_variant tn name asset vs)) =
     (if name \<in> set (map fst (variants vs)) then map fst (variants vs)
      else map fst (variants vs) @ [name])"
  by (simp only: author_variant_def names_in_variant_edit_context names_SetVariantSelection
      names_AddVariant)

lemma upt_head: "[a ..< a + Suc n] = a # [Suc a ..< Suc a + n]"
  by (simp add: upt_conv_Cons del: upt_Suc)

lemma names_add_lod_wraps:
  assumes "\<forall>n \<in> set (map fst (variants vs)). \<exists>k \<le> i. n = lod_name k"
  shows "map fst (variants (add_lod_wraps tn i wraps vs)) =
           map fst (variants vs) @ map lod_name [i + 1 ..< i + 1 + length wraps]"
  using assms
proof (induction wraps arbitrary: i vs)
  case Nil
  then show ?case by simp
next
  case (Cons w wraps)
  let ?vs = "author_variant tn (lod_name (i + 1)) w vs"
  have fresh: "lod_name (i + 1) \<notin> set (map fst (variants vs))"
  proof
    assume "lod_name (i + 1) \<in> set (map fst (variants vs))"
    then obtain k where "k \<le> i" "lod_name (i + 1) = lod_name k" using Cons.prems by blast
    then show False by (simp add: lod_name_inj)
  qed
  then have names: "map fst (variants ?vs) = map fst (variants vs) @ [lod_name (i + 1)]"
    by (simp only: names_author_variant if_False)
  have "\<forall>n \<in> set (map fst (variants ?vs)). \<exists>k \<le> i + 1. n = lod_name k"
  proof
    fix n
    assume "n \<in> set (map fst (variants ?vs))"
    then have "n \<in> set (map fst (variants vs)) \<or> n = lod_name (i + 1)"
      unfolding names by auto
    then show "\<exists>k \<le> i + 1. n = lod_name k"
    proof
      assume "n \<in> set (map fst (variants vs))"
      then obtain k where "k \<le> i" "n = lod_name k" using Cons.prems by blast
      then show ?thesis by (intro exI[of _ k]) simp
    next
      assume "n = lod_name (i + 1)"
      then show ?thesis by blast
    qed
  qed
  from Cons.IH[OF this] have
    "map fst (variants (add_lod_wraps tn (i + 1) wraps ?vs)) =
       (map fst (variants vs) @ [lod_name (i + 1)]) @ map lod_name [i + 1 + 1 ..< i + 1 + 1 + length wraps]"
    by (simp only: names)
  moreover have "[i + 1 ..< i + 1 + length (w # wraps)]
                   = (i + 1) # [i + 1 + 1 ..< i + 1 + 1 + length wraps]"
    using upt_head[of "i + 1" "length wraps"] by simp
  ultimately show ?case by (simp del: upt_Suc)
qed

lemma create_variant_layer_names:
  assumes "create_variant_layer env tn payload wraps path = Inr (out, vs)"
  shows "selection vs = ''LOD0''
       \<and> map fst (variants vs) = map lod_name [0 ..< length wraps + 1]"
proof -
  let ?v0 = "author_variant tn ''LOD0'' payload empty_variant_set"
  have n0: "map fst (variants ?v0) = [lod_name 0]"
    by (simp add: names_author_variant empty_variant_set_def LOD0_is_lod_name[symmetric])
  then have "\<forall>n \<in> set (map fst (variants ?v0)). \<exists>k \<le> 0. n = lod_name k" by simp
  from names_add_lod_wraps[OF this, of tn wraps]
  have "map fst (variants (add_lod_wraps tn 0 wraps ?v0)) =
          [lod_name 0] @ map lod_name [1 ..< 1 + length wraps]"
    by (simp add: n0)
  moreover have "vs = SetVariantSelection ''LOD0'' (add_lod_wraps tn 0 wraps ?v0)"
    using assms by (auto simp: create_variant_layer_def Let_def split: if_splits)
  moreover have "[0 ..< length wraps + 1] = 0 # [1 ..< 1 + length wraps]"
    using upt_head[of 0 "length wraps"] by simp
  ultimately show ?thesis
    by (simp add: SetVariantSelection_def del: upt_Suc)
qed

lemma addGeoVariants_selection:
  "addGeoVariantsIntoGeoUsd d rootPrim folder paths n = Some vs \<Longrightarrow> selection vs = ''LOD0''"
  by (auto simp: addGeoVariantsIntoGeoUsd_def Let_def SetVariantSelection_def split: if_splits)

lemma addShdVariants_selection:
  "addShdVariantsIntoShdUsd d rootPrim folder paths existing = Inr vs \<Longrightarrow> selection vs = ''LOD0''"
  by (auto simp: addShdVariantsIntoShdUsd_def Let_def SetVariantSelection_def split: sum.splits)

text \<open>
  \<open>process_shd_lod\<close> by the state of the fragment: unreadable, it raises; usable, it
  authors the variant; otherwise it leaves the set as it is.
\<close>

lemma process_shd_lod_cases:
  "process_shd_lod d rp shdFile paths name dirty vs =
     (if unreadable d dirty then Inl ErrorException
      else if usable d dirty
      then Inr (referenceToVariantEditContext d rp (clean_file paths name) shdFile (top_name paths)
                  False True (SetVariantSelection name (AddVariant name vs)))
      else Inr vs)"
  by (cases "find_or_open d dirty")
     (simp_all add: process_shd_lod_def clean_shader_file_def usable_def unreadable_def Let_def)

lemma shd_lod_loop_raises:
  "\<exists>i \<in> set idxs. unreadable d (shd_lod_file paths i) \<Longrightarrow>
     shd_lod_loop d rp shdFile paths idxs vs = Inl ErrorException"
proof (induction idxs arbitrary: vs)
  case Nil
  then show ?case by simp
next
  case (Cons i rest)
  show ?case
  proof (cases "unreadable d (shd_lod_file paths i)")
    case True
    then show ?thesis by (simp add: process_shd_lod_cases)
  next
    case False
    then have "\<exists>j \<in> set rest. unreadable d (shd_lod_file paths j)" using Cons.prems by auto
    from Cons.IH[OF this] show ?thesis using False
      by (cases "usable d (shd_lod_file paths i)") (simp_all add: process_shd_lod_cases)
  qed
qed

lemma shd_lod_loop_returns:
  "\<forall>i \<in> set idxs. \<not> unreadable d (shd_lod_file paths i) \<Longrightarrow>
     \<exists>vs'. shd_lod_loop d rp shdFile paths idxs vs = Inr vs'"
proof (induction idxs arbitrary: vs)
  case Nil
  then show ?case by simp
next
  case (Cons i rest)
  have r: "\<forall>j \<in> set rest. \<not> unreadable d (shd_lod_file paths j)" using Cons.prems by simp
  have i: "\<not> unreadable d (shd_lod_file paths i)" using Cons.prems by simp
  show ?case using Cons.IH[OF r] i
    by (cases "usable d (shd_lod_file paths i)") (simp_all add: process_shd_lod_cases)
qed

lemma addShdVariants_as_loop:
  "addShdVariantsIntoShdUsd d rp folder paths existing =
     (case shd_lod_loop d rp (folder @ ''/shd.usdc'') paths [0, 2, 4, 10] existing of
        Inl e \<Rightarrow> Inl e
      | Inr vs \<Rightarrow> Inr (SetVariantSelection ''LOD0'' vs))"
  by (simp add: addShdVariantsIntoShdUsd_def Let_def LOD0_is_lod_name split: sum.splits)

lemma addShdVariants_returns:
  assumes "\<forall>i \<in> set [0, 2, 4, 10]. \<not> unreadable d (shd_lod_file paths i)"
  shows "\<exists>vs. addShdVariantsIntoShdUsd d rp folder paths existing = Inr vs"
proof -
  obtain vs' where "shd_lod_loop d rp (folder @ ''/shd.usdc'') paths [0, 2, 4, 10] existing = Inr vs'"
    using shd_lod_loop_returns[OF assms] by blast
  then show ?thesis by (simp add: addShdVariants_as_loop)
qed

text \<open>A variant added under a new name holds exactly the reference authored in it.\<close>

lemma variants_authored:
  assumes "name \<notin> fst ` set (variants vs)"
  shows "variants (referenceToVariantEditContext d rp file geoFile tn isLOD0 isShd
                     (SetVariantSelection name (AddVariant name vs)))
         = variants vs @
           [(name,
             [if isShd
              then \<lparr>ref_owner = rp @ [''mtl''], ref_asset = relpath d file geoFile,
                    ref_prim = Some [''mtl'']\<rparr>
              else if isLOD0
              then \<lparr>ref_owner = rp, ref_asset = relpath d file geoFile, ref_prim = Some [tn]\<rparr>
              else \<lparr>ref_owner = rp, ref_asset = relpath d file geoFile, ref_prim = None\<rparr>])]"
proof -
  have old: "map (\<lambda>(n, refs). if n = name then (n, body refs) else (n, refs)) (variants vs)
               = variants vs" for body :: "reference list \<Rightarrow> reference list"
  proof (rule map_idI)
    fix x
    assume "x \<in> set (variants vs)"
    then have "fst x \<noteq> name" using assms by auto
    then show "(case x of (n, refs) \<Rightarrow> if n = name then (n, body refs) else (n, refs)) = x"
      by (cases x) simp
  qed
  show ?thesis
    using assms
    by (simp add: referenceToVariantEditContext_def in_variant_edit_context_def
        SetVariantSelection_def AddVariant_def AddReference_def Let_def old)
qed

lemma selection_authored:
  "selection (referenceToVariantEditContext d rp file geoFile tn isLOD0 isShd
                (SetVariantSelection name vs)) = name"
  by (simp add: referenceToVariantEditContext_def in_variant_edit_context_def
      SetVariantSelection_def Let_def)

lemma variants_geo_lod_loop:
  assumes "distinct idxs" and "\<forall>i \<in> set idxs. lod_name i \<notin> fst ` set (variants vs)"
  shows "variants (geo_lod_loop d [top_name paths] (version_dir paths @ ''/geo.usdc'') paths idxs vs)
           = variants vs
             @ map (geo_variant d paths) (filter (\<lambda>i. on_disk d (geo_lod_file paths i)) idxs)"
  using assms
proof (induction idxs arbitrary: vs)
  case Nil
  then show ?case by simp
next
  case (Cons i rest)
  show ?case
  proof (cases "on_disk d (geo_lod_file paths i)")
    case False
    then show ?thesis using Cons by simp
  next
    case True
    let ?vs = "referenceToVariantEditContext d [top_name paths] (geo_lod_file paths i)
                 (version_dir paths @ ''/geo.usdc'') (top_name paths)
                 False False (SetVariantSelection (lod_name i) (AddVariant (lod_name i) vs))"
    have fresh: "lod_name i \<notin> fst ` set (variants vs)" using Cons.prems by simp
    have v: "variants ?vs = variants vs @ [geo_variant d paths i]"
      using variants_authored[OF fresh, of d "[top_name paths]" "geo_lod_file paths i"
          "version_dir paths @ ''/geo.usdc''" "top_name paths" False False]
      by (simp add: geo_variant_def)
    have "\<forall>j \<in> set rest. lod_name j \<notin> fst ` set (variants ?vs)"
    proof
      fix j
      assume j: "j \<in> set rest"
      then have "j \<noteq> i" using Cons.prems(1) by auto
      moreover have "lod_name j \<notin> fst ` set (variants vs)" using Cons.prems(2) j by simp
      ultimately show "lod_name j \<notin> fst ` set (variants ?vs)"
        unfolding v by (simp add: lod_name_inj geo_variant_def)
    qed
    moreover have "distinct rest" using Cons.prems(1) by simp
    ultimately have "variants (geo_lod_loop d [top_name paths] (version_dir paths @ ''/geo.usdc'')
                       paths rest ?vs)
        = variants ?vs @ map (geo_variant d paths) (filter (\<lambda>i. on_disk d (geo_lod_file paths i)) rest)"
      by (rule Cons.IH[rotated])
    then show ?thesis using True by (simp add: v)
  qed
qed

lemma variants_shd_lod_loop:
  assumes "distinct idxs" and "\<forall>i \<in> set idxs. lod_name i \<notin> fst ` set (variants vs)"
    and "shd_lod_loop d [top_name paths] (version_dir paths @ ''/shd.usdc'') paths idxs vs = Inr vs'"
  shows "variants vs' = variants vs
           @ map (shd_variant d paths) (filter (\<lambda>i. usable d (shd_lod_file paths i)) idxs)"
  using assms
proof (induction idxs arbitrary: vs)
  case Nil
  then show ?case by simp
next
  case (Cons i rest)
  let ?new = "referenceToVariantEditContext d [top_name paths] (clean_file paths (lod_name i))
                 (version_dir paths @ ''/shd.usdc'') (top_name paths)
                 False True (SetVariantSelection (lod_name i) (AddVariant (lod_name i) vs))"
  let ?vs = "if usable d (shd_lod_file paths i) then ?new else vs"
  have nu: "\<not> unreadable d (shd_lod_file paths i)"
    using Cons.prems(3) by (auto simp: process_shd_lod_cases split: if_splits)
  have step: "process_shd_lod d [top_name paths] (version_dir paths @ ''/shd.usdc'') paths (lod_name i)
                (shd_lod_file paths i) vs = Inr ?vs"
    using nu by (simp add: process_shd_lod_cases)
  have rest: "shd_lod_loop d [top_name paths] (version_dir paths @ ''/shd.usdc'') paths rest ?vs = Inr vs'"
    using Cons.prems(3) step by simp
  have fresh: "lod_name i \<notin> fst ` set (variants vs)" using Cons.prems by simp
  have vnew: "variants ?new = variants vs @ [shd_variant d paths i]"
    using variants_authored[OF fresh, of d "[top_name paths]" "clean_file paths (lod_name i)"
        "version_dir paths @ ''/shd.usdc''" "top_name paths" False True]
    by (simp add: shd_variant_def)
  have v: "variants ?vs = variants vs @ (if usable d (shd_lod_file paths i) then [shd_variant d paths i] else [])"
    using vnew by simp
  have fr: "\<forall>j \<in> set rest. lod_name j \<notin> fst ` set (variants ?vs)"
  proof
    fix j
    assume j: "j \<in> set rest"
    then have "j \<noteq> i" using Cons.prems(1) by auto
    moreover have "lod_name j \<notin> fst ` set (variants vs)" using Cons.prems(2) j by simp
    ultimately show "lod_name j \<notin> fst ` set (variants ?vs)"
      unfolding v
      by (cases "usable d (shd_lod_file paths i)") (simp_all add: lod_name_inj shd_variant_def)
  qed
  have dr: "distinct rest" using Cons.prems(1) by simp
  have "variants vs' = variants ?vs
      @ map (shd_variant d paths) (filter (\<lambda>i. usable d (shd_lod_file paths i)) rest)"
    by (rule Cons.IH[OF dr fr rest])
  then show ?case unfolding v by simp
qed

lemma str_nat_last_digit: "is_digit (last (str_nat n))"
proof -
  have "last (str_nat n) \<in> set (str_nat n)" using str_nat_nonempty[of n] by simp
  then show ?thesis using str_nat_digits[of n] by (simp add: list_all_iff)
qed

lemma lod_file_not_geo:
  "a @ str_nat i @ ''.usdc'' \<noteq> folder @ ''/geo.usdc''"
proof
  assume eq: "a @ str_nat i @ ''.usdc'' = folder @ ''/geo.usdc''"
  have l: "a @ str_nat i @ ''.usdc'' = (a @ butlast (str_nat i)) @ [last (str_nat i)] @ ''.usdc''"
    using str_nat_nonempty[of i] by simp
  have r: "folder @ ''/geo.usdc'' = (folder @ ''/ge'') @ [CHR ''o''] @ ''.usdc''" by simp
  have "(a @ butlast (str_nat i)) @ [last (str_nat i)] @ ''.usdc''
          = (folder @ ''/ge'') @ [CHR ''o''] @ ''.usdc''"
    using eq l r by metis
  then have "last (str_nat i) = CHR ''o''" by simp
  then show False using str_nat_last_digit[of i] by (simp add: is_digit_def)
qed

lemma geo_lod_file_not_geo: "geo_lod_file paths i \<noteq> folder @ ''/geo.usdc''"
  using lod_file_not_geo[of "geoVariant_dir paths @ ''/geoVariant_geoLOD''" i folder]
  by (simp add: geo_lod_file_def)

lemma shd_lod_file_not_geo: "shd_lod_file paths i \<noteq> folder @ ''/geo.usdc''"
  using lod_file_not_geo[of "shdVariant_dir paths @ ''/shdVariant_shdLOD''" i folder]
  by (simp add: shd_lod_file_def)

lemma shd_lod_file_0:
  "shdVariant_dir paths @ ''/shdVariant_shd'' @ ''LOD0'' @ ''.usdc'' = shd_lod_file paths 0"
proof -
  have "str_nat 0 = ''0''" by code_simp
  then show ?thesis by (simp add: shd_lod_file_def)
qed

text \<open>The binding loop: it raises at the first mesh whose material is not composed.\<close>

lemma bind_loop_cases:
  "bind_loop mtl_root mats meshes bound =
     (if \<exists>b \<in> set meshes. snd b \<noteq> [] \<and> snd b \<notin> set mats then Inl ErrorException
      else Inr (bound @ map (\<lambda>b. (fst b, mtl_root @ [snd b])) (filter (\<lambda>b. snd b \<noteq> []) meshes)))"
proof (induction meshes arbitrary: bound)
  case Nil
  then show ?case by simp
next
  case (Cons b rest)
  obtain mesh name where b: "b = (mesh, name)" by (cases b)
  show ?case unfolding b by (auto simp: Cons.IH)
qed

text \<open>The disk after \<open>geoUsdExport\<close>, and what of it the later steps read.\<close>

lemma levels_of_assemble:
  "addGeoVariantsIntoGeoUsd
     (d\<lparr>on_disk := (on_disk d)(version_dir paths @ ''/geo.usdc'' := True)\<rparr>)
     [top_name paths] (version_dir paths) paths n
   = Some \<lparr>variants = base_variant d paths
                     # map (geo_variant d paths)
                         (filter (\<lambda>i. on_disk d (geo_lod_file paths i)) [1 ..< n + 1]),
           selection = ''LOD0''\<rparr>"
proof -
  let ?folder = "version_dir paths"
  let ?geo = "?folder @ ''/geo.usdc''"
  let ?d1 = "d\<lparr>on_disk := (on_disk d)(?geo := True)\<rparr>"
  let ?v0 = "referenceToVariantEditContext ?d1 [top_name paths] (?folder @ ''/render.usdc'') ?geo
               (top_name paths) True False
               (SetVariantSelection ''LOD0'' (AddVariant ''LOD0'' empty_variant_set))"
  have e: "''LOD0'' \<notin> fst ` set (variants empty_variant_set)" by (simp add: empty_variant_set_def)
  have v0: "variants ?v0 = [base_variant d paths]"
    using variants_authored[OF e, of ?d1 "[top_name paths]" "?folder @ ''/render.usdc''" ?geo
        "top_name paths" True False]
    by (simp add: base_variant_def empty_variant_set_def)
  have fresh: "\<forall>i \<in> set [1 ..< n + 1]. lod_name i \<notin> fst ` set (variants ?v0)"
    unfolding v0 by (auto simp: base_variant_def LOD0_is_lod_name lod_name_inj)
  have gv: "geo_variant ?d1 paths = geo_variant d paths"
    by (rule ext) (simp add: geo_variant_def)
  have od: "on_disk ?d1 (geo_lod_file paths i) = on_disk d (geo_lod_file paths i)" for i
    using geo_lod_file_not_geo[of paths i ?folder] by simp
  let ?vn = "geo_lod_loop ?d1 [top_name paths] ?geo paths [1 ..< n + 1] ?v0"
  have vn: "variants ?vn = base_variant d paths
              # map (geo_variant d paths) (filter (\<lambda>i. on_disk d (geo_lod_file paths i)) [1 ..< n + 1])"
    using variants_geo_lod_loop[OF distinct_upt fresh, of ?d1 paths]
    by (simp only: v0 gv od append_Cons append_Nil)
  have "addGeoVariantsIntoGeoUsd ?d1 [top_name paths] ?folder paths n
          = Some (SetVariantSelection ''LOD0'' ?vn)"
    by (simp add: addGeoVariantsIntoGeoUsd_def Let_def)
  moreover have "SetVariantSelection ''LOD0'' ?vn
          = \<lparr>variants = variants ?vn, selection = ''LOD0''\<rparr>"
    by (simp add: SetVariantSelection_def)
  ultimately show ?thesis by (simp only: vn)
qed

lemma mtl_of_assemble:
  "addShdVariantsIntoShdUsd
     (d\<lparr>on_disk := (on_disk d)(version_dir paths @ ''/geo.usdc'' := True)\<rparr>)
     [top_name paths] (version_dir paths) paths empty_variant_set
   = (if \<exists>i \<in> set [0, 2, 4, 10]. unreadable d (shd_lod_file paths i) then Inl ErrorException
      else Inr \<lparr>variants = map (shd_variant d paths)
                             (filter (\<lambda>i. usable d (shd_lod_file paths i)) [0, 2, 4, 10]),
                selection = ''LOD0''\<rparr>)"
proof -
  let ?folder = "version_dir paths"
  let ?geo = "?folder @ ''/geo.usdc''"
  let ?shd = "?folder @ ''/shd.usdc''"
  let ?d1 = "d\<lparr>on_disk := (on_disk d)(?geo := True)\<rparr>"
  have us: "usable ?d1 (shd_lod_file paths i) = usable d (shd_lod_file paths i)" for i
    using shd_lod_file_not_geo[of paths i ?folder] by (simp add: usable_def)
  have un: "unreadable ?d1 (shd_lod_file paths i) = unreadable d (shd_lod_file paths i)" for i
    using shd_lod_file_not_geo[of paths i ?folder] by (simp add: unreadable_def)
  have sv: "shd_variant ?d1 paths = shd_variant d paths"
    by (rule ext) (simp add: shd_variant_def)
  show ?thesis
  proof (cases "\<exists>i \<in> set [0, 2, 4, 10]. unreadable d (shd_lod_file paths i)")
    case True
    then have "\<exists>i \<in> set [0, 2, 4, 10]. unreadable ?d1 (shd_lod_file paths i)"
      by (simp only: un)
    from shd_lod_loop_raises[OF this, of "[top_name paths]" ?shd empty_variant_set]
    show ?thesis using True by (simp only: addShdVariants_as_loop sum.case if_True)
  next
    case False
    then have "\<forall>i \<in> set [0, 2, 4, 10]. \<not> unreadable ?d1 (shd_lod_file paths i)"
      by (simp only: un) blast
    from shd_lod_loop_returns[OF this, of "[top_name paths]" ?shd empty_variant_set]
    obtain vs' where
      l: "shd_lod_loop ?d1 [top_name paths] ?shd paths [0, 2, 4, 10] empty_variant_set = Inr vs'"
      by blast
    have fresh: "\<forall>i \<in> set [0, 2, 4, 10::nat]. lod_name i \<notin> fst ` set (variants empty_variant_set)"
      by (simp add: empty_variant_set_def)
    have dist: "distinct [0, 2, 4, 10::nat]" by simp
    have "variants vs' = variants empty_variant_set
            @ map (shd_variant ?d1 paths) (filter (\<lambda>i. usable ?d1 (shd_lod_file paths i)) [0, 2, 4, 10])"
      by (rule variants_shd_lod_loop[OF dist fresh l])
    then have v: "variants vs' = map (shd_variant d paths)
                     (filter (\<lambda>i. usable d (shd_lod_file paths i)) [0, 2, 4, 10])"
      by (simp only: sv us) (simp add: empty_variant_set_def)
    have "SetVariantSelection ''LOD0'' vs' = \<lparr>variants = variants vs', selection = ''LOD0''\<rparr>"
      by (simp add: SetVariantSelection_def)
    then have "addShdVariantsIntoShdUsd ?d1 [top_name paths] ?folder paths empty_variant_set
                 = Inr \<lparr>variants = variants vs', selection = ''LOD0''\<rparr>"
      using l by (simp only: addShdVariants_as_loop sum.case)
    then show ?thesis using False by (simp only: v if_False)
  qed
qed

text \<open>The materials composed under the scope, by the state of the shader fragment of LOD0.\<close>

lemma composed_materials_of_mtl:
  "composed_materials (d\<lparr>on_disk := (on_disk d)(g := True)\<rparr>) paths
     (Some \<lparr>variants = map (shd_variant d paths)
                         (filter (\<lambda>i. usable d (shd_lod_file paths i)) [0, 2, 4, 10]),
            selection = ''LOD0''\<rparr>)
   = (if usable d (shd_lod_file paths 0) then material_names d (shd_lod_file paths 0) else [])"
proof -
  have n: "fst (shd_variant d paths i) = lod_name i" for i by (simp add: shd_variant_def)
  have l: "lod_name 0 \<noteq> lod_name 2" "lod_name 0 \<noteq> lod_name 4" "lod_name 0 \<noteq> lod_name 10"
    by (simp_all add: lod_name_inj)
  have "(lod_name 0 \<in> lod_name ` set (filter (\<lambda>i. usable d (shd_lod_file paths i)) [0, 2, 4, 10]))
          = usable d (shd_lod_file paths 0)"
    using l by auto
  then have f: "(''LOD0'' \<in> fst ` set (map (shd_variant d paths)
                                  (filter (\<lambda>i. usable d (shd_lod_file paths i)) [0, 2, 4, 10])))
          = usable d (shd_lod_file paths 0)"
    by (simp only: set_map image_image n LOD0_is_lod_name)
  have m: "composed_materials D paths (Some V) =
             (if selection V \<in> fst ` set (variants V)
              then material_names D (shdVariant_dir paths @ ''/shdVariant_shd'' @ selection V @ ''.usdc'')
              else [])" for D V
    by (simp add: composed_materials_def)
  have "composed_materials (d\<lparr>on_disk := (on_disk d)(g := True)\<rparr>) paths
     (Some \<lparr>variants = map (shd_variant d paths)
                         (filter (\<lambda>i. usable d (shd_lod_file paths i)) [0, 2, 4, 10]),
            selection = ''LOD0''\<rparr>)
   = (if usable d (shd_lod_file paths 0)
      then material_names (d\<lparr>on_disk := (on_disk d)(g := True)\<rparr>) (shd_lod_file paths 0) else [])"
    by (simp only: m variant_set.simps f shd_lod_file_0)
  then show ?thesis by simp
qed

lemma composed_meshes_after_geo:
  "composed_meshes (d\<lparr>on_disk := (on_disk d)(version_dir paths @ ''/geo.usdc'' := True)\<rparr>) paths
     = composed_meshes d paths"
  by (simp add: composed_meshes_def Let_def)

text \<open>The assembly, by what is on disk.\<close>

lemma assemble_cases:
  "assemble d paths n do_tex =
     (if do_tex \<and> (\<exists>i \<in> set [0, 2, 4, 10]. unreadable d (shd_lod_file paths i))
      then Inl ErrorException
      else if \<exists>b \<in> set (composed_meshes d paths).
                 snd b \<noteq> []
               \<and> snd b \<notin> set (if do_tex \<and> usable d (shd_lod_file paths 0)
                               then material_names d (shd_lod_file paths 0) else [])
      then Inl ErrorException
      else Inr \<lparr>geo_sublayers =
                  (if on_disk d (version_dir paths @ ''/proxy.usdc'')
                   then [relpath d (version_dir paths @ ''/proxy.usdc'') (version_dir paths @ ''/geo.usdc'')]
                   else []),
                levels_set =
                  Some \<lparr>variants = base_variant d paths
                                    # map (geo_variant d paths)
                                        (filter (\<lambda>i. on_disk d (geo_lod_file paths i)) [1 ..< n + 1]),
                        selection = ''LOD0''\<rparr>,
                mtl_set =
                  (if do_tex
                   then Some \<lparr>variants = map (shd_variant d paths)
                                           (filter (\<lambda>i. usable d (shd_lod_file paths i)) [0, 2, 4, 10]),
                              selection = ''LOD0''\<rparr>
                   else None),
                payload_references = [''./shd.usdc'', ''./geo.usdc''],
                material_bindings =
                  map (\<lambda>b. (fst b, [top_name paths, ''mtl'', snd b]))
                    (filter (\<lambda>b. snd b \<noteq> []) (composed_meshes d paths))\<rparr>)"
proof -
  let ?d1 = "d\<lparr>on_disk := (on_disk d)(version_dir paths @ ''/geo.usdc'' := True)\<rparr>"
  let ?mtl = "\<lparr>variants = map (shd_variant d paths)
                           (filter (\<lambda>i. usable d (shd_lod_file paths i)) [0, 2, 4, 10]),
               selection = ''LOD0''\<rparr>"
  have g: "geoUsdExport d (version_dir paths) =
             ((if on_disk d (version_dir paths @ ''/proxy.usdc'')
               then [relpath d (version_dir paths @ ''/proxy.usdc'') (version_dir paths @ ''/geo.usdc'')]
               else []), ?d1)"
    by (simp add: geoUsdExport_def Let_def)
  have b1: "bind_materials_in_payload ?d1 paths (Some ?mtl) =
      (if \<exists>b \<in> set (composed_meshes d paths).
              snd b \<noteq> [] \<and> snd b \<notin> set (if usable d (shd_lod_file paths 0)
                                          then material_names d (shd_lod_file paths 0) else [])
       then Inl ErrorException
       else Inr (map (\<lambda>b. (fst b, [top_name paths, ''mtl'', snd b]))
                   (filter (\<lambda>b. snd b \<noteq> []) (composed_meshes d paths))))"
    by (simp only: bind_materials_in_payload_def composed_materials_of_mtl composed_meshes_after_geo
        bind_loop_cases append_Nil append_Cons)
  have b0: "bind_materials_in_payload ?d1 paths None =
      (if \<exists>b \<in> set (composed_meshes d paths). snd b \<noteq> [] \<and> snd b \<notin> set []
       then Inl ErrorException
       else Inr (map (\<lambda>b. (fst b, [top_name paths, ''mtl'', snd b]))
                   (filter (\<lambda>b. snd b \<noteq> []) (composed_meshes d paths))))"
    by (simp only: bind_materials_in_payload_def composed_materials_def option.case
        composed_meshes_after_geo bind_loop_cases append_Nil append_Cons)
  have A: "assemble d paths n do_tex =
      (case (if do_tex
             then map_sum id Some
                    (addShdVariantsIntoShdUsd ?d1 [top_name paths] (version_dir paths) paths
                       empty_variant_set)
             else Inr None) of
         Inl e \<Rightarrow> Inl e
       | Inr mtl \<Rightarrow>
           (case bind_materials_in_payload ?d1 paths mtl of
              Inl e \<Rightarrow> Inl e
            | Inr bound \<Rightarrow>
                Inr \<lparr>geo_sublayers =
                       (if on_disk d (version_dir paths @ ''/proxy.usdc'')
                        then [relpath d (version_dir paths @ ''/proxy.usdc'')
                                (version_dir paths @ ''/geo.usdc'')]
                        else []),
                     levels_set = addGeoVariantsIntoGeoUsd ?d1 [top_name paths] (version_dir paths)
                                    paths n,
                     mtl_set = mtl,
                     payload_references = [''./shd.usdc'', ''./geo.usdc''],
                     material_bindings = bound\<rparr>))"
    by (simp only: assemble_def Let_def g prod.case)
  show ?thesis
  proof (cases do_tex)
    case True
    show ?thesis
    proof (cases "\<exists>i \<in> set [0, 2, 4, 10]. unreadable d (shd_lod_file paths i)")
      case u: True
      have s: "addShdVariantsIntoShdUsd ?d1 [top_name paths] (version_dir paths) paths empty_variant_set
              = Inl ErrorException"
        using mtl_of_assemble[of d paths] u by (simp only: if_True)
      show ?thesis
        unfolding A by (simp only: True u s simp_thms if_True map_sum.simps sum.case id_apply)
    next
      case u: False
      have s: "addShdVariantsIntoShdUsd ?d1 [top_name paths] (version_dir paths) paths empty_variant_set
              = Inr ?mtl"
        using mtl_of_assemble[of d paths] u by (simp only: if_False)
      show ?thesis
      proof (cases "\<exists>b \<in> set (composed_meshes d paths).
              snd b \<noteq> [] \<and> snd b \<notin> set (if usable d (shd_lod_file paths 0)
                                          then material_names d (shd_lod_file paths 0) else [])")
        case b: True
        show ?thesis
          unfolding A
          by (simp only: True u s simp_thms if_True if_False map_sum.simps sum.case id_apply
              b1 b levels_of_assemble)
      next
        case b: False
        show ?thesis
          unfolding A
          by (simp only: True u s simp_thms if_True if_False map_sum.simps sum.case id_apply
              b1 b levels_of_assemble)
      qed
    qed
  next
    case False
    show ?thesis
    proof (cases "\<exists>b \<in> set (composed_meshes d paths). snd b \<noteq> [] \<and> snd b \<notin> set []")
      case b: True
      show ?thesis
        unfolding A
        by (simp only: False simp_thms if_True if_False sum.case b0 b levels_of_assemble)
    next
      case b: False
      show ?thesis
        unfolding A
        by (simp only: False simp_thms if_True if_False sum.case b0 b levels_of_assemble)
    qed
  qed
qed

text \<open>
  C4. For every number of variants, each variant-set composition ends with the selection
  set back to \<open>LOD0\<close>: the \<open>levels\<close> set of \<open>_create_variant_layer\<close>, whatever the list of
  LOD wraps (its variants are then \<open>LOD0 .. LODn\<close> for \<open>n\<close> wraps, \<open>LOD0\<close> among them),
  the \<open>levels\<close> set of \<open>addGeoVariantsIntoGeoUsd\<close> for every \<open>lod_count\<close>, and the \<open>mtl\<close>
  set of \<open>addShdVariantsIntoShdUsd\<close> whatever shader fragments are on disk. The layer is
  written whenever it can be created, the geometry set whenever \<open>geo.usdc\<close> exists, and
  the shading set unless a shader fragment on disk cannot be read.
\<close>

theorem variant_selection_ends_at_LOD0:
  "(\<forall>out vs. create_variant_layer env tn payload wraps path = Inr (out, vs)
       \<longrightarrow> selection vs = ''LOD0''
           \<and> map fst (variants vs) = map lod_name [0 ..< length wraps + 1])
   \<and> (can_create env (replace_backslash path)
        \<longrightarrow> (\<exists>vs. create_variant_layer env tn payload wraps path = Inr (replace_backslash path, vs)))
   \<and> (\<forall>vs. addGeoVariantsIntoGeoUsd d rp folder paths n = Some vs \<longrightarrow> selection vs = ''LOD0'')
   \<and> (on_disk d (folder @ ''/geo.usdc'')
        \<longrightarrow> (\<exists>vs. addGeoVariantsIntoGeoUsd d rp folder paths n = Some vs))
   \<and> (\<forall>vs. addShdVariantsIntoShdUsd d rp folder paths existing = Inr vs \<longrightarrow> selection vs = ''LOD0'')
   \<and> ((\<forall>i \<in> set [0, 2, 4, 10]. \<not> unreadable d (shd_lod_file paths i))
        \<longrightarrow> (\<exists>vs. addShdVariantsIntoShdUsd d rp folder paths existing = Inr vs))"
proof (intro conjI allI impI)
  fix out vs
  assume a: "create_variant_layer env tn payload wraps path = Inr (out, vs)"
  show "selection vs = ''LOD0''" using create_variant_layer_names[OF a] by simp
  show "map fst (variants vs) = map lod_name [0 ..< length wraps + 1]"
    using create_variant_layer_names[OF a] by simp
next
  assume "can_create env (replace_backslash path)"
  then show "\<exists>vs. create_variant_layer env tn payload wraps path = Inr (replace_backslash path, vs)"
    by (simp add: create_variant_layer_def Let_def)
next
  fix vs
  assume "addGeoVariantsIntoGeoUsd d rp folder paths n = Some vs"
  then show "selection vs = ''LOD0''" by (rule addGeoVariants_selection)
next
  assume "on_disk d (folder @ ''/geo.usdc'')"
  then show "\<exists>vs. addGeoVariantsIntoGeoUsd d rp folder paths n = Some vs"
    by (simp add: addGeoVariantsIntoGeoUsd_def Let_def)
next
  fix vs
  assume "addShdVariantsIntoShdUsd d rp folder paths existing = Inr vs"
  then show "selection vs = ''LOD0''" by (rule addShdVariants_selection)
next
  assume "\<forall>i \<in> set [0, 2, 4, 10]. \<not> unreadable d (shd_lod_file paths i)"
  then show "\<exists>vs. addShdVariantsIntoShdUsd d rp folder paths existing = Inr vs"
    by (rule addShdVariants_returns)
qed

theorem variant_selection_ends_at_LOD0_witness:
  "can_create plain_env (replace_backslash ''pub/variant.usdc'')
   \<and> (\<exists>vs. create_variant_layer plain_env ''A'' ''pub/payload.usdc''
              [''pub/variant/lod1_wrap.usdc'', ''pub/variant/lod2_wrap.usdc''] ''pub/variant.usdc''
            = Inr (''pub/variant.usdc'', vs)
          \<and> selection vs = ''LOD0''
          \<and> map fst (variants vs) = [''LOD0'', ''LOD1'', ''LOD2''])"
proof -
  let ?wraps = "[''pub/variant/lod1_wrap.usdc'', ''pub/variant/lod2_wrap.usdc'']"
  have h: "can_create plain_env (replace_backslash ''pub/variant.usdc'')"
    by (simp add: plain_env_def)
  have rb: "replace_backslash ''pub/variant.usdc'' = ''pub/variant.usdc''"
    by (simp add: replace_backslash_def)
  have names: "map lod_name [0 ..< length ?wraps + 1] = [''LOD0'', ''LOD1'', ''LOD2'']"
    by code_simp
  note t = variant_selection_ends_at_LOD0[of plain_env "''A''" "''pub/payload.usdc''" ?wraps
      "''pub/variant.usdc''" undefined undefined undefined undefined 0 undefined]
  from t have "can_create plain_env (replace_backslash ''pub/variant.usdc'')
      \<longrightarrow> (\<exists>vs. create_variant_layer plain_env ''A'' ''pub/payload.usdc'' ?wraps ''pub/variant.usdc''
                 = Inr (replace_backslash ''pub/variant.usdc'', vs))"
    by (rule conjunct2[THEN conjunct1])
  from this[rule_format, OF h] obtain vs where vs:
    "create_variant_layer plain_env ''A'' ''pub/payload.usdc'' ?wraps ''pub/variant.usdc''
       = Inr (''pub/variant.usdc'', vs)"
    unfolding rb by (rule exE)
  from t have A: "\<forall>out vs. create_variant_layer plain_env ''A'' ''pub/payload.usdc'' ?wraps ''pub/variant.usdc''
                   = Inr (out, vs)
      \<longrightarrow> selection vs = ''LOD0'' \<and> map fst (variants vs) = map lod_name [0 ..< length ?wraps + 1]"
    by (rule conjunct1)
  have B: "selection vs = ''LOD0'' \<and> map fst (variants vs) = map lod_name [0 ..< length ?wraps + 1]"
    using A[rule_format, OF vs] .
  have C: "selection vs = ''LOD0'' \<and> map fst (variants vs) = [''LOD0'', ''LOD1'', ''LOD2'']"
    using B unfolding names .
  have "\<exists>vs. create_variant_layer plain_env ''A'' ''pub/payload.usdc'' ?wraps ''pub/variant.usdc''
               = Inr (''pub/variant.usdc'', vs)
             \<and> selection vs = ''LOD0''
             \<and> map fst (variants vs) = [''LOD0'', ''LOD1'', ''LOD2'']"
    by (rule exI[of _ vs]) (rule conjI[OF vs C])
  with h show ?thesis by (rule conjI)
qed

text \<open>
  An assembly with three levels asked for where only the fragment of level 2 was
  produced, no proxy, and the shader fragments of levels 0 and 4 only; and one where
  every fragment was produced but the shader fragment of level 0. The base geometry has
  one mesh, whose \<open>bindingMat\<close> is the material \<open>M\<close> of the shader fragments.
\<close>

definition example_paths :: publish_paths where
  "example_paths =
     \<lparr>top_name = ''A'', version_dir = ''pub/v001'',
      geoVariant_dir = ''pub/v001/geoVariants'', shdVariant_dir = ''pub/v001/shdVariants''\<rparr>"

definition partial_disk :: disk where
  "partial_disk =
     \<lparr>on_disk = (\<lambda>p. p \<in> set [''pub/v001/render.usdc'',
                                ''pub/v001/geoVariants/geoVariant_geoLOD2.usdc'',
                                ''pub/v001/shdVariants/shdVariant_shdLOD0.usdc'',
                                ''pub/v001/shdVariants/shdVariant_shdLOD4.usdc'']),
      find_or_open = (\<lambda>_. Opened),
      relpath = (\<lambda>file geoFile. file),
      material_names = (\<lambda>_. [''M'']),
      mesh_bindings = (\<lambda>p. if p = ''pub/v001/render.usdc'' then [([''A'', ''geo''], ''M'')] else [])\<rparr>"

definition disk_without_shader_LOD0 :: disk where
  "disk_without_shader_LOD0 =
     \<lparr>on_disk = (\<lambda>p. p \<in> set [''pub/v001/render.usdc'',
                                ''pub/v001/proxy.usdc'',
                                ''pub/v001/geoVariants/geoVariant_geoLOD1.usdc'',
                                ''pub/v001/geoVariants/geoVariant_geoLOD2.usdc'',
                                ''pub/v001/shdVariants/shdVariant_shdLOD2.usdc'',
                                ''pub/v001/shdVariants/shdVariant_shdLOD4.usdc'',
                                ''pub/v001/shdVariants/shdVariant_shdLOD10.usdc'']),
      find_or_open = (\<lambda>_. Opened),
      relpath = (\<lambda>file geoFile. file),
      material_names = (\<lambda>_. [''M'']),
      mesh_bindings = (\<lambda>p. if p = ''pub/v001/render.usdc'' then [([''A'', ''geo''], ''M'')] else [])\<rparr>"

text \<open>
  C9. What the assembly does with the optional fragments it finds: when it returns,
  \<open>geo.usdc\<close> sublayers the proxy fragment exactly when it is on disk; the \<open>levels\<close> set
  holds \<open>LOD0\<close>, referencing the base geometry, and one variant, referencing its
  fragment, for each level \<open>1 .. lod_count\<close> whose fragment is on disk, in order, and
  none for the others; the \<open>mtl\<close> set (when texture LODs are asked for) holds one variant,
  referencing the clean file of its fragment, for each of the levels 0, 2, 4, 10 whose
  shader fragment is on disk and opens, and none for the others; the payload references
  the shading and geometry layers; every mesh with a \<open>bindingMat\<close> is bound to the
  material of that name under the scope \<open>mtl\<close> of the top prim.

  It does not return, and raises, exactly when a shader fragment on disk cannot be read,
  or a mesh of the base geometry has a \<open>bindingMat\<close> that names no material composed
  under that scope, which are the materials of the shader fragment of level 0. So the
  absence of that optional fragment is fatal: with it missing, and a mesh with a
  \<open>bindingMat\<close> in the base geometry, the assembly aborts in \<open>bind_materials_in_payload\<close>
  instead of composing the smaller asset.
\<close>

theorem assemble_with_missing_artifacts:
  "(\<forall>a. assemble d paths n do_tex = Inr a \<longrightarrow>
       geo_sublayers a =
         (if on_disk d (version_dir paths @ ''/proxy.usdc'')
          then [relpath d (version_dir paths @ ''/proxy.usdc'') (version_dir paths @ ''/geo.usdc'')]
          else [])
     \<and> levels_set a =
         Some \<lparr>variants = base_variant d paths
                           # map (geo_variant d paths)
                               (filter (\<lambda>i. on_disk d (geo_lod_file paths i)) [1 ..< n + 1]),
               selection = ''LOD0''\<rparr>
     \<and> mtl_set a =
         (if do_tex
          then Some \<lparr>variants = map (shd_variant d paths)
                                  (filter (\<lambda>i. usable d (shd_lod_file paths i)) [0, 2, 4, 10]),
                     selection = ''LOD0''\<rparr>
          else None)
     \<and> payload_references a = [''./shd.usdc'', ''./geo.usdc'']
     \<and> material_bindings a =
         map (\<lambda>b. (fst b, [top_name paths, ''mtl'', snd b]))
           (filter (\<lambda>b. snd b \<noteq> []) (composed_meshes d paths)))
   \<and> (isl (assemble d paths n do_tex) \<longleftrightarrow>
        (do_tex \<and> (\<exists>i \<in> set [0, 2, 4, 10]. unreadable d (shd_lod_file paths i)))
        \<or> (\<exists>b \<in> set (composed_meshes d paths).
              snd b \<noteq> []
            \<and> snd b \<notin> set (if do_tex \<and> usable d (shd_lod_file paths 0)
                            then material_names d (shd_lod_file paths 0) else [])))
   \<and> (\<not> on_disk d (shd_lod_file paths 0) \<and> (\<exists>b \<in> set (composed_meshes d paths). snd b \<noteq> [])
        \<longrightarrow> assemble d paths n do_tex = Inl ErrorException)"
proof -
  let ?unread = "do_tex \<and> (\<exists>i \<in> set [0, 2, 4, 10]. unreadable d (shd_lod_file paths i))"
  let ?unbound = "\<exists>b \<in> set (composed_meshes d paths).
              snd b \<noteq> []
            \<and> snd b \<notin> set (if do_tex \<and> usable d (shd_lod_file paths 0)
                            then material_names d (shd_lod_file paths 0) else [])"
  let ?a = "\<lparr>geo_sublayers =
                  (if on_disk d (version_dir paths @ ''/proxy.usdc'')
                   then [relpath d (version_dir paths @ ''/proxy.usdc'') (version_dir paths @ ''/geo.usdc'')]
                   else []),
                levels_set =
                  Some \<lparr>variants = base_variant d paths
                                    # map (geo_variant d paths)
                                        (filter (\<lambda>i. on_disk d (geo_lod_file paths i)) [1 ..< n + 1]),
                        selection = ''LOD0''\<rparr>,
                mtl_set =
                  (if do_tex
                   then Some \<lparr>variants = map (shd_variant d paths)
                                           (filter (\<lambda>i. usable d (shd_lod_file paths i)) [0, 2, 4, 10]),
                              selection = ''LOD0''\<rparr>
                   else None),
                payload_references = [''./shd.usdc'', ''./geo.usdc''],
                material_bindings =
                  map (\<lambda>b. (fst b, [top_name paths, ''mtl'', snd b]))
                    (filter (\<lambda>b. snd b \<noteq> []) (composed_meshes d paths))\<rparr>"
  have c: "assemble d paths n do_tex =
             (if ?unread then Inl ErrorException else if ?unbound then Inl ErrorException else Inr ?a)"
    by (rule assemble_cases)
  have r1: "assemble d paths n do_tex = Inl ErrorException" if "?unread"
    unfolding c by (rule if_P[OF that])
  have r2: "assemble d paths n do_tex = Inl ErrorException" if "\<not> ?unread" and "?unbound"
    unfolding c by (simp only: if_not_P[OF that(1)] if_P[OF that(2)])
  have r3: "assemble d paths n do_tex = Inr ?a" if "\<not> ?unread" and "\<not> ?unbound"
    unfolding c by (simp only: if_not_P[OF that(1)] if_not_P[OF that(2)])
  have one: "\<forall>a. assemble d paths n do_tex = Inr a \<longrightarrow>
       geo_sublayers a =
         (if on_disk d (version_dir paths @ ''/proxy.usdc'')
          then [relpath d (version_dir paths @ ''/proxy.usdc'') (version_dir paths @ ''/geo.usdc'')]
          else [])
     \<and> levels_set a =
         Some \<lparr>variants = base_variant d paths
                           # map (geo_variant d paths)
                               (filter (\<lambda>i. on_disk d (geo_lod_file paths i)) [1 ..< n + 1]),
               selection = ''LOD0''\<rparr>
     \<and> mtl_set a =
         (if do_tex
          then Some \<lparr>variants = map (shd_variant d paths)
                                  (filter (\<lambda>i. usable d (shd_lod_file paths i)) [0, 2, 4, 10]),
                     selection = ''LOD0''\<rparr>
          else None)
     \<and> payload_references a = [''./shd.usdc'', ''./geo.usdc'']
     \<and> material_bindings a =
         map (\<lambda>b. (fst b, [top_name paths, ''mtl'', snd b]))
           (filter (\<lambda>b. snd b \<noteq> []) (composed_meshes d paths))"
  proof (intro allI impI)
    fix a
    assume h: "assemble d paths n do_tex = Inr a"
    have nu: "\<not> ?unread"
    proof
      assume "?unread"
      from r1[OF this] h show False by (simp only: sum.distinct)
    qed
    have nb: "\<not> ?unbound"
    proof
      assume "?unbound"
      from r2[OF nu this] h show False by (simp only: sum.distinct)
    qed
    have e: "a = ?a" using r3[OF nu nb] h by (simp only: sum.inject)
    show "geo_sublayers a =
         (if on_disk d (version_dir paths @ ''/proxy.usdc'')
          then [relpath d (version_dir paths @ ''/proxy.usdc'') (version_dir paths @ ''/geo.usdc'')]
          else [])
     \<and> levels_set a =
         Some \<lparr>variants = base_variant d paths
                           # map (geo_variant d paths)
                               (filter (\<lambda>i. on_disk d (geo_lod_file paths i)) [1 ..< n + 1]),
               selection = ''LOD0''\<rparr>
     \<and> mtl_set a =
         (if do_tex
          then Some \<lparr>variants = map (shd_variant d paths)
                                  (filter (\<lambda>i. usable d (shd_lod_file paths i)) [0, 2, 4, 10]),
                     selection = ''LOD0''\<rparr>
          else None)
     \<and> payload_references a = [''./shd.usdc'', ''./geo.usdc'']
     \<and> material_bindings a =
         map (\<lambda>b. (fst b, [top_name paths, ''mtl'', snd b]))
           (filter (\<lambda>b. snd b \<noteq> []) (composed_meshes d paths))"
      unfolding e by (simp only: assembled.select_convs simp_thms)
  qed
  have i1: "isl (assemble d paths n do_tex)" if "?unread"
    unfolding r1[OF that] by (simp only: sum.disc)
  have i2: "isl (assemble d paths n do_tex)" if "\<not> ?unread" and "?unbound"
    unfolding r2[OF that] by (simp only: sum.disc)
  have i3: "\<not> isl (assemble d paths n do_tex)" if "\<not> ?unread" and "\<not> ?unbound"
    unfolding r3[OF that] by (simp only: sum.disc simp_thms)
  have two: "isl (assemble d paths n do_tex) \<longleftrightarrow> ?unread \<or> ?unbound"
  proof (rule iffI)
    assume l: "isl (assemble d paths n do_tex)"
    show "?unread \<or> ?unbound"
    proof (rule ccontr)
      assume n: "\<not> (?unread \<or> ?unbound)"
      have nu: "\<not> ?unread" using n by (rule contrapos_nn) (rule disjI1)
      have nb: "\<not> ?unbound" using n by (rule contrapos_nn) (rule disjI2)
      from i3[OF nu nb] l show False ..
    qed
  next
    assume "?unread \<or> ?unbound"
    then show "isl (assemble d paths n do_tex)"
    proof (rule disjE)
      assume "?unread"
      then show ?thesis by (rule i1)
    next
      assume ub: "?unbound"
      show ?thesis
      proof (cases "?unread")
        case True
        then show ?thesis by (rule i1)
      next
        case False
        then show ?thesis using ub by (rule i2)
      qed
    qed
  qed
  have three: "\<not> on_disk d (shd_lod_file paths 0) \<and> (\<exists>b \<in> set (composed_meshes d paths). snd b \<noteq> [])
        \<longrightarrow> assemble d paths n do_tex = Inl ErrorException"
  proof
    assume h: "\<not> on_disk d (shd_lod_file paths 0) \<and> (\<exists>b \<in> set (composed_meshes d paths). snd b \<noteq> [])"
    then have nus: "\<not> usable d (shd_lod_file paths 0)" by (simp add: usable_def)
    obtain b where b: "b \<in> set (composed_meshes d paths)" "snd b \<noteq> []" using h by blast
    have "snd b \<notin> set (if do_tex \<and> usable d (shd_lod_file paths 0)
                            then material_names d (shd_lod_file paths 0) else [])"
      using nus by simp
    then have ub: "?unbound" using b by blast
    show "assemble d paths n do_tex = Inl ErrorException"
    proof (cases "?unread")
      case True
      then show ?thesis by (rule r1)
    next
      case False
      then show ?thesis using ub by (rule r2)
    qed
  qed
  show ?thesis by (rule conjI[OF one conjI[OF two three]])
qed

theorem assemble_with_missing_artifacts_witness:
  "\<not> on_disk disk_without_shader_LOD0 (shd_lod_file example_paths 0)
   \<and> (\<exists>b \<in> set (composed_meshes disk_without_shader_LOD0 example_paths). snd b \<noteq> [])
   \<and> assemble disk_without_shader_LOD0 example_paths 2 True = Inl ErrorException
   \<and> (\<exists>a. assemble partial_disk example_paths 3 True = Inr a
          \<and> geo_sublayers a = []
          \<and> map_option (\<lambda>vs. (map fst (variants vs), selection vs)) (levels_set a)
              = Some ([''LOD0'', ''LOD2''], ''LOD0'')
          \<and> map_option (\<lambda>vs. (map fst (variants vs), selection vs)) (mtl_set a)
              = Some ([''LOD0'', ''LOD4''], ''LOD0'')
          \<and> material_bindings a = [([''A'', ''geo''], [''A'', ''mtl'', ''M''])])"
proof -
  have h1: "\<not> on_disk disk_without_shader_LOD0 (shd_lod_file example_paths 0)"
    by code_simp
  have h2: "\<exists>b \<in> set (composed_meshes disk_without_shader_LOD0 example_paths). snd b \<noteq> []"
    by code_simp
  note t = assemble_with_missing_artifacts[of disk_without_shader_LOD0 example_paths 2 True]
  have "\<not> on_disk disk_without_shader_LOD0 (shd_lod_file example_paths 0)
          \<and> (\<exists>b \<in> set (composed_meshes disk_without_shader_LOD0 example_paths). snd b \<noteq> [])
        \<longrightarrow> assemble disk_without_shader_LOD0 example_paths 2 True = Inl ErrorException"
    using t by (rule conjunct2[THEN conjunct2])
  from this[rule_format, OF conjI[OF h1 h2]]
  have h3: "assemble disk_without_shader_LOD0 example_paths 2 True = Inl ErrorException" .
  have "\<not> isl (assemble partial_disk example_paths 3 True)" by code_simp
  then obtain a where a: "assemble partial_disk example_paths 3 True = Inr a"
    by (cases "assemble partial_disk example_paths 3 True") simp_all
  note s = assemble_with_missing_artifacts[of partial_disk example_paths 3 True,
      THEN conjunct1, rule_format, OF a]
  have g0: "(if on_disk partial_disk (version_dir example_paths @ ''/proxy.usdc'')
             then [relpath partial_disk (version_dir example_paths @ ''/proxy.usdc'')
                     (version_dir example_paths @ ''/geo.usdc'')]
             else []) = []"
    by code_simp
  have l0: "map fst (base_variant partial_disk example_paths
                      # map (geo_variant partial_disk example_paths)
                          (filter (\<lambda>i. on_disk partial_disk (geo_lod_file example_paths i)) [1 ..< 3 + 1]))
            = [''LOD0'', ''LOD2'']"
    by code_simp
  have m0: "map fst (map (shd_variant partial_disk example_paths)
                      (filter (\<lambda>i. usable partial_disk (shd_lod_file example_paths i)) [0, 2, 4, 10]))
            = [''LOD0'', ''LOD4'']"
    by code_simp
  have b0: "map (\<lambda>b. (fst b, [top_name example_paths, ''mtl'', snd b]))
              (filter (\<lambda>b. snd b \<noteq> []) (composed_meshes partial_disk example_paths))
            = [([''A'', ''geo''], [''A'', ''mtl'', ''M''])]"
    by code_simp
  have g: "geo_sublayers a = []" using s[THEN conjunct1] unfolding g0 .
  have l: "map_option (\<lambda>vs. (map fst (variants vs), selection vs)) (levels_set a)
              = Some ([''LOD0'', ''LOD2''], ''LOD0'')"
    using s[THEN conjunct2, THEN conjunct1] l0 by simp
  have m: "map_option (\<lambda>vs. (map fst (variants vs), selection vs)) (mtl_set a)
              = Some ([''LOD0'', ''LOD4''], ''LOD0'')"
    using s[THEN conjunct2, THEN conjunct2, THEN conjunct1] m0 by simp
  have b: "material_bindings a = [([''A'', ''geo''], [''A'', ''mtl'', ''M''])]"
    using s[THEN conjunct2, THEN conjunct2, THEN conjunct2, THEN conjunct2] unfolding b0 .
  have e: "\<exists>a. assemble partial_disk example_paths 3 True = Inr a
          \<and> geo_sublayers a = []
          \<and> map_option (\<lambda>vs. (map fst (variants vs), selection vs)) (levels_set a)
              = Some ([''LOD0'', ''LOD2''], ''LOD0'')
          \<and> map_option (\<lambda>vs. (map fst (variants vs), selection vs)) (mtl_set a)
              = Some ([''LOD0'', ''LOD4''], ''LOD0'')
          \<and> material_bindings a = [([''A'', ''geo''], [''A'', ''mtl'', ''M''])]"
    by (rule exI[of _ a]) (rule conjI[OF a conjI[OF g conjI[OF l conjI[OF m b]]]])
  show ?thesis by (rule conjI[OF h1 conjI[OF h2 conjI[OF h3 e]]])
qed


section \<open>Geometry LODs: what each reduction is applied to\<close>

text \<open>
  The geometry under a node is a value of an arbitrary type; \<open>reduce percent g\<close> stands
  for \<open>_reduce_with_cleanup\<close> (Maya's \<open>polyReduce\<close>) applied to every mesh parent under a
  node holding \<open>g\<close>; \<open>cmds.duplicate\<close> gives a node with the same geometry and leaves the
  source node as it is. The state records each reduction (the geometry it was applied to
  and the percentage) and what was handed to the exporter for each output path.
\<close>

record 'g lod_state =
  reduce_calls :: "('g \<times> real) list"
  exported :: "(string \<times> 'g) list"

subsection \<open>26.02.03: one duplicate per level\<close>

text \<open>
  \<open>LODVariantExporter._create_single_lod_usd\<close>:
  \<^verbatim>\<open>
    filename = f"{variant_type}_{suffix}{lod_index}.usdc"
    lod_path = os.path.join(output_dir, filename).replace("\\", "/")
    lod_dup = cmds.duplicate(src, rr=True)[0]
    ...
        if variant_type == "geoVariant":
            ...
            for p in parents: _reduce_with_cleanup(p, percent)
        cmds.select(lod_dup, r=True)
        cmds.arnoldExportAss(f=lod_path, selected=True, ...)
    ...
    finally:
        if cmds.objExists(lod_dup): cmds.delete(lod_dup)
    return lod_path
  \<close>
\<close>

definition create_single_lod_usd ::
  "(real \<Rightarrow> 'g \<Rightarrow> 'g) \<Rightarrow> 'g \<Rightarrow> string \<Rightarrow> string \<Rightarrow> nat \<Rightarrow> real \<Rightarrow> 'g lod_state \<Rightarrow> string \<times> 'g lod_state" where
  "create_single_lod_usd reduce src output_dir variant_type lod_index percent st =
     (let suffix = (if variant_type = ''geoVariant'' then ''geoLOD''
                    else if variant_type = ''shdVariant'' then ''shdLOD'' else ''LOD'');
          lod_path = output_dir @ ''/'' @ variant_type @ ''_'' @ suffix @ str_nat lod_index @ ''.usdc'';
          lod_dup = src
      in if variant_type = ''geoVariant''
         then (lod_path,
               \<lparr>reduce_calls = reduce_calls st @ [(lod_dup, percent)],
                exported = exported st @ [(lod_path, reduce percent lod_dup)]\<rparr>)
         else (lod_path, st\<lparr>exported := exported st @ [(lod_path, lod_dup)]\<rparr>))"

text \<open>
  Step 3 of \<open>run_local_publish\<close>:
  \<^verbatim>\<open>
    for i in range(1, lod_count + 1):
        keep_ratio = (base_keep_percent / 100.0) ** i
        remove_percent = 100.0 - (keep_ratio * 100.0)
        remove_percent = max(0.0, min(99.0, remove_percent))
        exporter.task_export_single_lod(top_node, paths, "geoVariant",
            lod_index=i, percent=remove_percent, shaderOrNot=False)
  \<close>
\<close>

fun export_geo_lods ::
  "(real \<Rightarrow> 'g \<Rightarrow> 'g) \<Rightarrow> 'g \<Rightarrow> string \<Rightarrow> real \<Rightarrow> nat list \<Rightarrow> 'g lod_state \<Rightarrow> 'g lod_state" where
  "export_geo_lods reduce src output_dir base_keep_percent [] st = st"
| "export_geo_lods reduce src output_dir base_keep_percent (i # rest) st =
     export_geo_lods reduce src output_dir base_keep_percent rest
       (snd (create_single_lod_usd reduce src output_dir ''geoVariant'' i
               (remove_percent base_keep_percent i) st))"

definition run_local_publish_lods ::
  "(real \<Rightarrow> 'g \<Rightarrow> 'g) \<Rightarrow> 'g \<Rightarrow> string \<Rightarrow> real \<Rightarrow> nat \<Rightarrow> 'g lod_state" where
  "run_local_publish_lods reduce src output_dir base_keep_percent lod_count =
     export_geo_lods reduce src output_dir base_keep_percent [1 ..< lod_count + 1]
       \<lparr>reduce_calls = [], exported = []\<rparr>"

subsection \<open>25.12.7: one duplicate for all levels\<close>

text \<open>
  \<^verbatim>\<open>
  def _create_lod_usd(top_name, src, variant_dir, mask, lod_count=2, per_step_percent=50.0):
      lod_dup = cmds.duplicate(src, rr=True)[0]
      lod_dup = _safe_rename(lod_dup, f"{top_name}_LOD")
      lod_paths = []
      for i in range(lod_count):
          ...
          for p in parents: _reduce_with_cleanup(p, per_step_percent)
          lod_path = os.path.join(variant_dir, f"lod{i+1}.usdc").replace("\\", "/")
          cmds.select(lod_dup, r=True)
          cmds.arnoldExportAss(f=lod_path, selected=True, ...)
          ...
      cmds.delete(lod_dup)
      return lod_paths
  \<close>
  The loop carries the duplicate: each level reduces what the level before left.
\<close>

fun create_lod_loop ::
  "(real \<Rightarrow> 'g \<Rightarrow> 'g) \<Rightarrow> string \<Rightarrow> real \<Rightarrow> nat list \<Rightarrow> 'g \<times> 'g lod_state \<Rightarrow> 'g \<times> 'g lod_state" where
  "create_lod_loop reduce variant_dir per_step_percent [] acc = acc"
| "create_lod_loop reduce variant_dir per_step_percent (i # rest) (lod_dup, st) =
     (let reduced = reduce per_step_percent lod_dup;
          lod_path = variant_dir @ ''/lod'' @ str_nat (i + 1) @ ''.usdc''
      in create_lod_loop reduce variant_dir per_step_percent rest
           (reduced,
            \<lparr>reduce_calls = reduce_calls st @ [(lod_dup, per_step_percent)],
             exported = exported st @ [(lod_path, reduced)]\<rparr>))"

definition create_lod_usd ::
  "(real \<Rightarrow> 'g \<Rightarrow> 'g) \<Rightarrow> 'g \<Rightarrow> string \<Rightarrow> nat \<Rightarrow> real \<Rightarrow> 'g lod_state" where
  "create_lod_usd reduce src variant_dir lod_count per_step_percent =
     (let lod_dup = src
      in snd (create_lod_loop reduce variant_dir per_step_percent [0 ..< lod_count]
                (lod_dup, \<lparr>reduce_calls = [], exported = []\<rparr>)))"

subsection \<open>Properties\<close>

lemma export_geo_lods_calls:
  "reduce_calls (export_geo_lods reduce src dir b idxs st) =
     reduce_calls st @ map (\<lambda>i. (src, remove_percent b i)) idxs"
  by (induction idxs arbitrary: st) (simp_all add: create_single_lod_usd_def Let_def)

lemma export_geo_lods_exported:
  "map snd (exported (export_geo_lods reduce src dir b idxs st)) =
     map snd (exported st) @ map (\<lambda>i. reduce (remove_percent b i) src) idxs"
  by (induction idxs arbitrary: st) (simp_all add: create_single_lod_usd_def Let_def)

lemma create_lod_loop_calls:
  "reduce_calls (snd (create_lod_loop reduce dir p idxs (g, st))) =
     reduce_calls st @ map (\<lambda>k. ((reduce p ^^ k) g, p)) [0 ..< length idxs]"
proof (induction idxs arbitrary: g st)
  case Nil
  then show ?case by simp
next
  case (Cons i rest)
  have "map (\<lambda>k. ((reduce p ^^ k) g, p)) [0 ..< length (i # rest)] =
        (g, p) # map (\<lambda>k. ((reduce p ^^ k) (reduce p g), p)) [0 ..< length rest]"
    by (simp add: upt_conv_Cons map_Suc_upt[symmetric] funpow_swap1 del: upt_Suc)
  then show ?case using Cons by (simp add: Let_def del: upt_Suc)
qed

lemma create_lod_loop_exported:
  "map snd (exported (snd (create_lod_loop reduce dir p idxs (g, st)))) =
     map snd (exported st) @ map (\<lambda>k. (reduce p ^^ (k + 1)) g) [0 ..< length idxs]"
proof (induction idxs arbitrary: g st)
  case Nil
  then show ?case by simp
next
  case (Cons i rest)
  have "map (\<lambda>k. (reduce p ^^ (k + 1)) g) [0 ..< length (i # rest)] =
        reduce p g # map (\<lambda>k. (reduce p ^^ (k + 1)) (reduce p g)) [0 ..< length rest]"
    by (simp add: upt_conv_Cons map_Suc_upt[symmetric] funpow_swap1 del: upt_Suc)
  then show ?case using Cons by (simp add: Let_def del: upt_Suc)
qed

text \<open>
  A stand-in for \<open>polyReduce\<close> on face counts: it removes the given percentage of the
  faces, rounding down what is kept.
\<close>

definition reduce_faces :: "real \<Rightarrow> nat \<Rightarrow> nat" where
  "reduce_faces percent faces = nat \<lfloor>real faces * (1 - percent / 100)\<rfloor>"

text \<open>
  C7, as stated, fails on \<open>_create_lod_usd\<close> of 25.12.7: with a source of 1000 faces, two
  levels and 50 percent per step, the second reduction is applied to the 500 faces the
  first one left, not to the source.
\<close>

theorem create_lod_usd_chains_reductions:
  "reduce_calls (create_lod_usd reduce_faces 1000 ''variant'' 2 50) = [(1000, 50), (500, 50)]
   \<and> map snd (exported (create_lod_usd reduce_faces 1000 ''variant'' 2 50)) = [500, 250]"
proof -
  have r1: "reduce_faces 50 1000 = 500" by (simp add: reduce_faces_def)
  have r2: "reduce_faces 50 500 = 250" by (simp add: reduce_faces_def)
  have idx: "[0 ..< 2] = [0, 1::nat]" by (simp add: upt_rec)
  show ?thesis
    by (simp add: create_lod_usd_def Let_def idx r1 r2)
qed

text \<open>
  C7, amended. In the exporter of 26.02.03 (\<open>_create_single_lod_usd\<close>, driven by the level
  loop of \<open>run_local_publish\<close>) the reduction of every level \<open>i\<close> is applied to a fresh
  duplicate of the source, by the planned cumulative percentage of that level, and what is
  exported for level \<open>i\<close> is that one reduction of the source. In 25.12.7
  (\<open>_create_lod_usd\<close>) the source is duplicated once and the same duplicate is reduced
  again at every level by the per-step percentage: level \<open>i\<close> is applied to the output of
  level \<open>i - 1\<close>, and what is exported for level \<open>i\<close> is the \<open>i\<close>-fold reduction.
\<close>

theorem lod_reductions_per_version:
  "reduce_calls (run_local_publish_lods reduce src dir b n)
     = map (\<lambda>i. (src, remove_percent b i)) [1 ..< n + 1]
   \<and> map snd (exported (run_local_publish_lods reduce src dir b n))
     = map (\<lambda>i. reduce (remove_percent b i) src) [1 ..< n + 1]
   \<and> reduce_calls (create_lod_usd reduce src dir n p)
     = map (\<lambda>k. ((reduce p ^^ k) src, p)) [0 ..< n]
   \<and> map snd (exported (create_lod_usd reduce src dir n p))
     = map (\<lambda>k. (reduce p ^^ (k + 1)) src) [0 ..< n]"
  by (simp add: run_local_publish_lods_def create_lod_usd_def Let_def export_geo_lods_calls
      export_geo_lods_exported create_lod_loop_calls create_lod_loop_exported del: upt_Suc)

theorem lod_reductions_per_version_witness:
  "map fst (reduce_calls (run_local_publish_lods reduce_faces 1000 ''geoVariants'' 50 2)) = [1000, 1000]
   \<and> map snd (exported (run_local_publish_lods reduce_faces 1000 ''geoVariants'' 50 2)) = [500, 250]
   \<and> map fst (reduce_calls (create_lod_usd reduce_faces 1000 ''geoVariants'' 2 50)) = [1000, 500]"
proof -
  note t = lod_reductions_per_version[where reduce = reduce_faces and src = 1000
      and dir = "''geoVariants''" and b = 50 and n = 2 and p = 50]
  have idx: "[1 ..< 2 + 1] = [1, 2::nat]" "[0 ..< 2] = [0, 1::nat]" by (simp_all add: upt_rec)
  have rp: "remove_percent 50 (Suc 0) = 50" "remove_percent 50 2 = 75"
    using remove_percent_50 by simp_all
  have r: "reduce_faces 50 1000 = 500" "reduce_faces 75 1000 = 250"
    by (simp_all add: reduce_faces_def)
  have r2: "reduce_faces 50 500 = 250" by (simp add: reduce_faces_def)
  show ?thesis
    using t[unfolded idx] by (simp add: rp r r2)
qed

section \<open>Texture down-scaling\<close>

text \<open>
  \<open>TextureLODProcessor._convert_single_file(src, dst, scale)\<close> (26.02.03):
  \<^verbatim>\<open>
    if os.path.exists(dst) and os.path.getsize(dst) > 0: return True, "Skipped"
    try: os.makedirs(os.path.dirname(dst), exist_ok=True)
    except OSError: pass
    pct = int(100.0 / scale)
    cmd = [self.OIIO_TOOL, src, "--resize", f"{pct}%", "-o", dst]
    ...
    try:
        subprocess.run(cmd, check=True, startupinfo=startupinfo, stderr=subprocess.PIPE)
        return True, "Processed"
    except Exception as e: return False, str(e)
  \<close>
  The state is the files on disk (path to content; the size of a file is the length of its
  content) and the commands handed to \<open>subprocess.run\<close>, in order. Directories hold no
  content and are left out. The converter is outside the source: \<open>run_tool\<close> gives, for a
  command and the files before, the message of the exception it raised, if any, and the
  files after. The scales are the integers of \<open>LOD_SPECS\<close>; \<open>100.0 / 0\<close> raises.
\<close>

record texture_state =
  files :: "string \<rightharpoonup> string"
  tool_runs :: "string list list"

record texture_env =
  OIIO_TOOL :: string
  run_tool :: "string list \<Rightarrow> (string \<rightharpoonup> string) \<Rightarrow> string option \<times> (string \<rightharpoonup> string)"

definition exists_nonempty :: "texture_state \<Rightarrow> string \<Rightarrow> bool" where
  "exists_nonempty st dst = (case files st dst of Some content \<Rightarrow> 0 < length content | None \<Rightarrow> False)"

definition convert_single_file ::
  "texture_env \<Rightarrow> string \<Rightarrow> string \<Rightarrow> nat \<Rightarrow> texture_state \<Rightarrow> error + ((bool \<times> string) \<times> texture_state)" where
  "convert_single_file env src dst scl st =
     (if exists_nonempty st dst then Inr ((True, ''Skipped''), st)
      else if scl = 0 then Inl ZeroDivisionError
      else
        (let pct = 100 div scl;
             cmd = [OIIO_TOOL env, src, ''--resize'', str_nat pct @ ''%'', ''-o'', dst]
         in case run_tool env cmd (files st) of
              (None, files') \<Rightarrow>
                Inr ((True, ''Processed''), \<lparr>files = files', tool_runs = tool_runs st @ [cmd]\<rparr>)
            | (Some msg, files') \<Rightarrow>
                Inr ((False, msg), \<lparr>files = files', tool_runs = tool_runs st @ [cmd]\<rparr>)))"

text \<open>
  C10. For every source tile, destination path and scale: when the destination file
  exists with size greater than zero, the conversion step returns \<open>(True, "Skipped")\<close>,
  hands nothing to the converter and leaves every file, the destination among them, as
  it was; the answer does not depend on the source tile, so an output is not made again
  when its source has changed. Hence a step run again after a run that left a non-empty
  destination changes nothing.
\<close>

theorem convert_single_file_skips_existing:
  assumes "files st dst = Some content" and "0 < length content"
  shows "convert_single_file env src dst scl st = Inr ((True, ''Skipped''), st)
       \<and> convert_single_file env src dst scl st = convert_single_file env' src' dst scl' st
       \<and> (\<forall>res st'. convert_single_file env0 src0 dst scl0 st0 = Inr (res, st') \<and> exists_nonempty st' dst
             \<longrightarrow> convert_single_file env0 src0 dst scl0 st' = Inr ((True, ''Skipped''), st'))"
  using assms by (simp add: convert_single_file_def exists_nonempty_def)

text \<open>A converter that writes the source's content, halved, to the path after \<open>-o\<close>.\<close>

definition halving_env :: texture_env where
  "halving_env =
     \<lparr>OIIO_TOOL = ''oiiotool'',
      run_tool = (\<lambda>cmd fs. case fs (cmd ! 1) of
                    None \<Rightarrow> (Some ''missing source'', fs)
                  | Some c \<Rightarrow> (None, fs(cmd ! 5 \<mapsto> take (length c div 2) c)))\<rparr>"

theorem convert_single_file_skips_existing_witness:
  "convert_single_file halving_env ''tex/a.1001.exr'' ''tex/LOD2/a_LOD2.1001.exr'' 2
     \<lparr>files = [''tex/a.1001.exr'' \<mapsto> ''new pixels'', ''tex/LOD2/a_LOD2.1001.exr'' \<mapsto> ''old''],
      tool_runs = []\<rparr>
   = Inr ((True, ''Skipped''),
          \<lparr>files = [''tex/a.1001.exr'' \<mapsto> ''new pixels'', ''tex/LOD2/a_LOD2.1001.exr'' \<mapsto> ''old''],
           tool_runs = []\<rparr>)"
proof -
  let ?st = "\<lparr>files = [''tex/a.1001.exr'' \<mapsto> ''new pixels'', ''tex/LOD2/a_LOD2.1001.exr'' \<mapsto> ''old''],
              tool_runs = []\<rparr>"
  have h1: "files ?st ''tex/LOD2/a_LOD2.1001.exr'' = Some ''old''" by simp
  have h2: "0 < length ''old''" by simp
  show ?thesis
    using convert_single_file_skips_existing[OF h1 h2, of halving_env "''tex/a.1001.exr''" 2]
    by (rule conjunct1)
qed

section \<open>The submission chain of the farm publish\<close>

text \<open>
  \<open>run_deadline_publish\<close> (26.02.03), section 5. A job is what the chain hands to
  \<open>DeadlineSubmitter.submit_job\<close>: the suffix of its name, the task kind and extra argument
  of the worker call, and the \<open>JobDependencies\<close> entry of its job info, when set. The farm
  is outside the source: for a job it answers a job id, nothing (no \<open>JobID=\<close> line, or a
  texture job that was not submitted because the scene has no texture), or raises.
  \<^verbatim>\<open>
    assembly_dependencies = []
    mayaExportJobId = submit_export_job()
    assembly_dependencies.append(mayaExportJobId)
    if config_data.get('do_tex'):
        OiioConvertJobId = submit_oiio_job(None)
        if OiioConvertJobId: assembly_dependencies.append(OiioConvertJobId)
    if config_data.get('has_proxy'):
        proxy_job_id = submit_geo_job("proxy", "Proxy")
        if proxy_job_id: assembly_dependencies.append(proxy_job_id)
    if config_data.get('has_lods'):
        lod_count = config_data.get('lod_count', 0)
        for i in range(1, lod_count + 1):
            lod_job_id = submit_geo_job("lod", f"LOD{i}", str(i))
            if lod_job_id: assembly_dependencies.append(lod_job_id)
    AssembleUsdJobId = submit_assemble_job(assembly_dependencies)
  \<close>
\<close>

record farm_job =
  job_suffix :: string
  task_type :: string
  extra_arg :: string
  JobDependencies :: "string option"

record publish_config =
  do_tex :: bool
  has_proxy :: bool
  has_lods :: bool
  lod_count :: nat

type_synonym farm = "farm_job \<Rightarrow> error + string option"

text \<open>Python's truth of a job id: \<open>None\<close> and the empty string are false.\<close>

definition truthy :: "string option \<Rightarrow> bool" where
  "truthy jid = (case jid of Some s \<Rightarrow> s \<noteq> [] | None \<Rightarrow> False)"

text \<open>
  \<open>_get_Job_Info_Dict(..., dependencies)\<close>: a non-empty list is joined with commas, which
  raises \<open>TypeError\<close> when an entry is \<open>None\<close>; an empty list sets nothing.
\<close>

definition job_dependencies_entry :: "string option list \<Rightarrow> error + string option" where
  "job_dependencies_entry dependencies =
     (if dependencies = [] then Inr None
      else if None \<in> set dependencies then Inl TypeError
      else Inr (Some (join '','' (map the dependencies))))"

definition export_job :: farm_job where
  "export_job = \<lparr>job_suffix = ''Maya_Export_Base'', task_type = ''export_base'', extra_arg = [],
                 JobDependencies = None\<rparr>"

definition oiio_job :: farm_job where
  "oiio_job = \<lparr>job_suffix = ''OIIO_Convert'', task_type = ''<STARTFRAME> <ENDFRAME>'', extra_arg = [],
               JobDependencies = None\<rparr>"

definition geo_job :: "string \<Rightarrow> string \<Rightarrow> string \<Rightarrow> farm_job" where
  "geo_job task_identifier specific_name extra =
     \<lparr>job_suffix = ''Geo_'' @ specific_name, task_type = task_identifier, extra_arg = extra,
      JobDependencies = None\<rparr>"

definition assemble_job :: "string option \<Rightarrow> farm_job" where
  "assemble_job deps = \<lparr>job_suffix = ''Assemble_Shotgun_Submission'', task_type = ''assemble'',
                        extra_arg = [], JobDependencies = deps\<rparr>"

text \<open>
  The state of the chain: the submissions made so far with the farm's answers, in order,
  and \<open>assembly_dependencies\<close>.
\<close>

record chain =
  submitted :: "(farm_job \<times> string option) list"
  assembly_dependencies :: "string option list"

text \<open>One optional producer: submit, and append the id when it is true.\<close>

definition submit_optional :: "farm \<Rightarrow> farm_job \<Rightarrow> chain \<Rightarrow> error + chain" where
  "submit_optional farm job c =
     (case farm job of
        Inl e \<Rightarrow> Inl e
      | Inr jid \<Rightarrow>
          Inr \<lparr>submitted = submitted c @ [(job, jid)],
               assembly_dependencies =
                 (if truthy jid then assembly_dependencies c @ [jid] else assembly_dependencies c)\<rparr>)"

fun submit_lods :: "farm \<Rightarrow> nat list \<Rightarrow> chain \<Rightarrow> error + chain" where
  "submit_lods farm [] c = Inr c"
| "submit_lods farm (i # rest) c =
     (case submit_optional farm (geo_job ''lod'' (''LOD'' @ str_nat i) (str_nat i)) c of
        Inl e \<Rightarrow> Inl e
      | Inr c' \<Rightarrow> submit_lods farm rest c')"

text \<open>
  The texture job is submitted only when the scene has textures (\<open>has_textures\<close>: the
  manifest of tiles is not empty). The result is the chain at the fan-in, the assemble job
  as submitted, and the farm's answer to it.
\<close>

definition run_deadline_publish ::
  "farm \<Rightarrow> publish_config \<Rightarrow> bool \<Rightarrow> error + (chain \<times> farm_job \<times> string option)" where
  "run_deadline_publish farm config_data has_textures =
     (case farm export_job of
        Inl e \<Rightarrow> Inl e
      | Inr mayaExportJobId \<Rightarrow>
          (let c0 = \<lparr>submitted = [(export_job, mayaExportJobId)],
                     assembly_dependencies = [mayaExportJobId]\<rparr>
           in case (if do_tex config_data \<and> has_textures then submit_optional farm oiio_job c0
                    else Inr c0) of
                Inl e \<Rightarrow> Inl e
              | Inr c1 \<Rightarrow>
                  (case (if has_proxy config_data
                         then submit_optional farm (geo_job ''proxy'' ''Proxy'' []) c1
                         else Inr c1) of
                     Inl e \<Rightarrow> Inl e
                   | Inr c2 \<Rightarrow>
                       (case (if has_lods config_data
                              then submit_lods farm [1 ..< lod_count config_data + 1] c2
                              else Inr c2) of
                          Inl e \<Rightarrow> Inl e
                        | Inr c3 \<Rightarrow>
                            (case job_dependencies_entry (assembly_dependencies c3) of
                               Inl e \<Rightarrow> Inl e
                             | Inr deps \<Rightarrow>
                                 (case farm (assemble_job deps) of
                                    Inl e \<Rightarrow> Inl e
                                  | Inr AssembleUsdJobId \<Rightarrow>
                                      Inr (c3, assemble_job deps, AssembleUsdJobId)))))))"

subsection \<open>Properties\<close>

text \<open>
  The invariant of the chain: the dependencies are the answer to the first submission
  followed by the true answers to the later ones, in order.
\<close>

definition chain_ok :: "chain \<Rightarrow> bool" where
  "chain_ok c =
     (submitted c \<noteq> []
      \<and> assembly_dependencies c =
          snd (hd (submitted c)) # filter truthy (map snd (tl (submitted c))))"

lemma submit_optional_ok:
  "chain_ok c \<Longrightarrow> submit_optional farm job c = Inr c' \<Longrightarrow>
     chain_ok c' \<and> hd (submitted c') = hd (submitted c)"
  by (auto simp: chain_ok_def submit_optional_def split: sum.splits)

lemma submit_lods_ok:
  "chain_ok c \<Longrightarrow> submit_lods farm idxs c = Inr c' \<Longrightarrow>
     chain_ok c' \<and> hd (submitted c') = hd (submitted c)"
proof (induction idxs arbitrary: c)
  case Nil
  then show ?case by simp
next
  case (Cons i rest)
  then obtain c1 where
    c1: "submit_optional farm (geo_job ''lod'' (''LOD'' @ str_nat i) (str_nat i)) c = Inr c1"
    and rest: "submit_lods farm rest c1 = Inr c'"
    by (auto split: sum.splits)
  from submit_optional_ok[OF Cons.prems(1) c1] Cons.IH[OF _ rest]
  show ?case by simp
qed

lemma submit_optional_recorded:
  "\<forall>s \<in> set (submitted c). farm (fst s) = Inr (snd s) \<Longrightarrow> submit_optional farm job c = Inr c' \<Longrightarrow>
     \<forall>s \<in> set (submitted c'). farm (fst s) = Inr (snd s)"
  by (auto simp: submit_optional_def split: sum.splits)

lemma submit_lods_recorded:
  "\<forall>s \<in> set (submitted c). farm (fst s) = Inr (snd s) \<Longrightarrow> submit_lods farm idxs c = Inr c' \<Longrightarrow>
     \<forall>s \<in> set (submitted c'). farm (fst s) = Inr (snd s)"
proof (induction idxs arbitrary: c)
  case Nil
  then show ?case by simp
next
  case (Cons i rest)
  then obtain c1 where
    c1: "submit_optional farm (geo_job ''lod'' (''LOD'' @ str_nat i) (str_nat i)) c = Inr c1"
    and rest: "submit_lods farm rest c1 = Inr c'"
    by (auto split: sum.splits)
  from Cons.IH[OF submit_optional_recorded[OF Cons.prems(1) c1] rest]
  show ?case .
qed

lemma run_deadline_publish_chain:
  assumes "run_deadline_publish farm cfg tex = Inr (c, job, aid)"
  shows "chain_ok c \<and> fst (hd (submitted c)) = export_job
       \<and> job_dependencies_entry (assembly_dependencies c) = Inr (JobDependencies job)
       \<and> job = assemble_job (JobDependencies job)
       \<and> farm job = Inr aid
       \<and> (\<forall>s \<in> set (submitted c). farm (fst s) = Inr (snd s))"
proof -
  obtain eid where e: "farm export_job = Inr eid"
    using assms by (auto simp: run_deadline_publish_def split: sum.splits)
  let ?c0 = "\<lparr>submitted = [(export_job, eid)], assembly_dependencies = [eid]\<rparr>"
  have ok0: "chain_ok ?c0" by (simp add: chain_ok_def)
  have r0: "\<forall>s \<in> set (submitted ?c0). farm (fst s) = Inr (snd s)" using e by simp
  obtain c1 where c1: "(if do_tex cfg \<and> tex then submit_optional farm oiio_job ?c0 else Inr ?c0) = Inr c1"
    using assms e by (auto simp: run_deadline_publish_def Let_def split: sum.splits)
  have ok1: "chain_ok c1 \<and> hd (submitted c1) = (export_job, eid)"
    using c1 ok0 submit_optional_ok[OF ok0, of farm oiio_job c1] by (auto split: if_splits)
  have r1: "\<forall>s \<in> set (submitted c1). farm (fst s) = Inr (snd s)"
    using c1 r0 submit_optional_recorded[OF r0, of oiio_job c1] by (cases "do_tex cfg \<and> tex") auto
  obtain c2 where c2: "(if has_proxy cfg then submit_optional farm (geo_job ''proxy'' ''Proxy'' []) c1
                        else Inr c1) = Inr c2"
    using assms e c1 by (auto simp: run_deadline_publish_def Let_def split: sum.splits)
  have ok2: "chain_ok c2 \<and> hd (submitted c2) = (export_job, eid)"
    using c2 ok1 submit_optional_ok[of c1 farm "geo_job ''proxy'' ''Proxy'' []" c2]
    by (auto split: if_splits)
  have r2: "\<forall>s \<in> set (submitted c2). farm (fst s) = Inr (snd s)"
    using c2 r1 submit_optional_recorded[OF r1, of "geo_job ''proxy'' ''Proxy'' []" c2]
    by (cases "has_proxy cfg") auto
  obtain c3 where c3: "(if has_lods cfg then submit_lods farm [1 ..< lod_count cfg + 1] c2
                        else Inr c2) = Inr c3"
    using assms e c1 c2 by (auto simp: run_deadline_publish_def Let_def split: sum.splits)
  have ok3: "chain_ok c3 \<and> hd (submitted c3) = (export_job, eid)"
    using c3 ok2 submit_lods_ok[of c2 farm "[1 ..< lod_count cfg + 1]" c3]
    by (auto split: if_splits)
  have r3: "\<forall>s \<in> set (submitted c3). farm (fst s) = Inr (snd s)"
    using c3 r2 submit_lods_recorded[OF r2, of "[1 ..< lod_count cfg + 1]" c3]
    by (cases "has_lods cfg") auto
  obtain deps where d: "job_dependencies_entry (assembly_dependencies c3) = Inr deps"
    using assms e c1 c2 c3 by (auto simp: run_deadline_publish_def Let_def split: sum.splits)
  have cj: "c = c3 \<and> job = assemble_job deps \<and> farm (assemble_job deps) = Inr aid"
    using assms e c1 c2 c3 d by (auto simp: run_deadline_publish_def Let_def split: sum.splits)
  have jd: "JobDependencies (assemble_job deps) = deps" by (simp add: assemble_job_def)
  show ?thesis
    using cj ok3 d r3 jd by simp
qed

lemma submit_optional_jobs:
  "submit_optional farm job c = Inr c' \<Longrightarrow> map fst (submitted c') = map fst (submitted c) @ [job]"
  by (auto simp: submit_optional_def split: sum.splits)

lemma submit_lods_jobs:
  "submit_lods farm idxs c = Inr c' \<Longrightarrow>
     map fst (submitted c') =
       map fst (submitted c) @ map (\<lambda>i. geo_job ''lod'' (''LOD'' @ str_nat i) (str_nat i)) idxs"
proof (induction idxs arbitrary: c)
  case Nil
  then show ?case by simp
next
  case (Cons i rest)
  then obtain c1 where
    c1: "submit_optional farm (geo_job ''lod'' (''LOD'' @ str_nat i) (str_nat i)) c = Inr c1"
    and rest: "submit_lods farm rest c1 = Inr c'"
    by (auto split: sum.splits)
  show ?case using submit_optional_jobs[OF c1] Cons.IH[OF rest] by simp
qed

text \<open>The producer jobs the configuration schedules, in the order of the chain.\<close>

definition scheduled_jobs :: "publish_config \<Rightarrow> bool \<Rightarrow> farm_job list" where
  "scheduled_jobs cfg has_textures =
     export_job
     # (if do_tex cfg \<and> has_textures then [oiio_job] else [])
     @ (if has_proxy cfg then [geo_job ''proxy'' ''Proxy'' []] else [])
     @ (if has_lods cfg
        then map (\<lambda>i. geo_job ''lod'' (''LOD'' @ str_nat i) (str_nat i)) [1 ..< lod_count cfg + 1]
        else [])"

lemma run_deadline_publish_jobs:
  assumes "run_deadline_publish farm cfg tex = Inr (c, job, aid)"
  shows "map fst (submitted c) = scheduled_jobs cfg tex"
proof -
  obtain eid where e: "farm export_job = Inr eid"
    using assms by (auto simp: run_deadline_publish_def split: sum.splits)
  let ?c0 = "\<lparr>submitted = [(export_job, eid)], assembly_dependencies = [eid]\<rparr>"
  obtain c1 where c1: "(if do_tex cfg \<and> tex then submit_optional farm oiio_job ?c0 else Inr ?c0) = Inr c1"
    using assms e by (auto simp: run_deadline_publish_def Let_def split: sum.splits)
  have j1: "map fst (submitted c1) = export_job # (if do_tex cfg \<and> tex then [oiio_job] else [])"
    using c1 submit_optional_jobs[of farm oiio_job ?c0 c1] by (auto split: if_splits)
  obtain c2 where c2: "(if has_proxy cfg then submit_optional farm (geo_job ''proxy'' ''Proxy'' []) c1
                        else Inr c1) = Inr c2"
    using assms e c1 by (auto simp: run_deadline_publish_def Let_def split: sum.splits)
  have j2: "map fst (submitted c2) = map fst (submitted c1)
              @ (if has_proxy cfg then [geo_job ''proxy'' ''Proxy'' []] else [])"
    using c2 submit_optional_jobs[of farm "geo_job ''proxy'' ''Proxy'' []" c1 c2]
    by (auto split: if_splits)
  obtain c3 where c3: "(if has_lods cfg then submit_lods farm [1 ..< lod_count cfg + 1] c2
                        else Inr c2) = Inr c3"
    using assms e c1 c2 by (auto simp: run_deadline_publish_def Let_def split: sum.splits)
  have j3: "map fst (submitted c3) = map fst (submitted c2)
              @ (if has_lods cfg
                 then map (\<lambda>i. geo_job ''lod'' (''LOD'' @ str_nat i) (str_nat i)) [1 ..< lod_count cfg + 1]
                 else [])"
    using c3 submit_lods_jobs[of farm "[1 ..< lod_count cfg + 1]" c2 c3]
    by (auto split: if_splits)
  have "c = c3"
    using assms e c1 c2 c3 by (auto simp: run_deadline_publish_def Let_def split: sum.splits)
  then show ?thesis by (simp only: j3 j2 j1 scheduled_jobs_def append_Cons append_assoc)
qed

lemma map_Some_the: "None \<notin> set xs \<Longrightarrow> map Some (map the xs) = xs"
  by (induction xs) auto

text \<open>A farm that never raises.\<close>

definition answers :: "farm \<Rightarrow> bool" where
  "answers farm = (\<forall>job. \<exists>jid. farm job = Inr jid)"

lemma submit_optional_returns:
  assumes "answers farm" and "None \<notin> set (assembly_dependencies c)"
  shows "\<exists>c'. submit_optional farm job c = Inr c' \<and> None \<notin> set (assembly_dependencies c')"
proof -
  obtain jid where "farm job = Inr jid" using assms(1) by (auto simp: answers_def)
  then show ?thesis using assms(2) by (auto simp: submit_optional_def truthy_def)
qed

lemma submit_lods_returns:
  assumes "answers farm" and "None \<notin> set (assembly_dependencies c)"
  shows "\<exists>c'. submit_lods farm idxs c = Inr c' \<and> None \<notin> set (assembly_dependencies c')"
  using assms(2)
proof (induction idxs arbitrary: c)
  case Nil
  then show ?case by simp
next
  case (Cons i rest)
  obtain c1 where
    c1: "submit_optional farm (geo_job ''lod'' (''LOD'' @ str_nat i) (str_nat i)) c = Inr c1"
        "None \<notin> set (assembly_dependencies c1)"
    using submit_optional_returns[OF assms(1) Cons.prems] by blast
  show ?case using c1 Cons.IH[OF c1(2)] by simp
qed

lemma run_deadline_publish_returns:
  assumes a: "answers farm" and e: "farm export_job = Inr (Some eid)"
  shows "\<exists>c job aid. run_deadline_publish farm cfg tex = Inr (c, job, aid)"
proof -
  let ?c0 = "\<lparr>submitted = [(export_job, Some eid)], assembly_dependencies = [Some eid]\<rparr>"
  have n0: "None \<notin> set (assembly_dependencies ?c0)" by simp
  obtain c1 where c1: "(if do_tex cfg \<and> tex then submit_optional farm oiio_job ?c0 else Inr ?c0) = Inr c1"
    "None \<notin> set (assembly_dependencies c1)"
    using submit_optional_returns[OF a n0, of oiio_job] by (cases "do_tex cfg \<and> tex") auto
  obtain c2 where c2: "(if has_proxy cfg then submit_optional farm (geo_job ''proxy'' ''Proxy'' []) c1
                        else Inr c1) = Inr c2"
    "None \<notin> set (assembly_dependencies c2)"
    using submit_optional_returns[OF a c1(2), of "geo_job ''proxy'' ''Proxy'' []"] c1(2)
    by (cases "has_proxy cfg") auto
  obtain c3 where c3: "(if has_lods cfg then submit_lods farm [1 ..< lod_count cfg + 1] c2
                        else Inr c2) = Inr c3"
    "None \<notin> set (assembly_dependencies c3)"
    using submit_lods_returns[OF a c2(2), of "[1 ..< lod_count cfg + 1]"] c2(2)
    by (cases "has_lods cfg") auto
  obtain deps where d: "job_dependencies_entry (assembly_dependencies c3) = Inr deps"
    using c3(2) by (cases "assembly_dependencies c3 = []") (simp_all add: job_dependencies_entry_def)
  obtain aid where aid: "farm (assemble_job deps) = Inr aid"
    using a by (auto simp: answers_def)
  have "run_deadline_publish farm cfg tex = Inr (c3, assemble_job deps, aid)"
    using e c1(1) c2(1) c3(1) d aid by (simp add: run_deadline_publish_def Let_def)
  then show ?thesis by blast
qed

text \<open>
  The farm's scheduler, as section 5 of the specification describes it: it does not start
  a job until every job id of its dependency list has reported a terminal state.
\<close>

definition may_start :: "string list \<Rightarrow> string set \<Rightarrow> bool" where
  "may_start dependencies terminal = (set dependencies \<subseteq> terminal)"

text \<open>A farm that has no id for the export_base job and an id for every other job.\<close>

definition silent_export_farm :: farm where
  "silent_export_farm job =
     (if job_suffix job = ''Maya_Export_Base'' then Inr None
      else Inr (Some (''id-'' @ job_suffix job)))"

text \<open>
  A farm that names each job after its suffix and argument, and has no id for the proxy
  job.
\<close>

definition naming_farm :: farm where
  "naming_farm job =
     (if job_suffix job = ''Geo_Proxy'' then Inr None
      else Inr (Some (''id-'' @ job_suffix job)))"

definition example_config :: publish_config where
  "example_config = \<lparr>do_tex = True, has_proxy = True, has_lods = True, lod_count = 2\<rparr>"

text \<open>
  C5, as stated, fails for a run in which the submission of export_base returns no id
  (no \<open>JobID=\<close> line in the answer) on a farm that raises nowhere: the producers are
  submitted, the join of the dependency list raises \<open>TypeError\<close>, and no assemble job is
  submitted.
\<close>

theorem export_without_id_submits_no_assemble_job:
  "run_deadline_publish silent_export_farm example_config True = Inl TypeError"
  by code_simp

text \<open>
  C5, amended. In every run of the submission chain that returns, the assemble job was
  handed to the farm, after every producer submission, with a \<open>JobDependencies\<close> entry
  that is the comma-joined list of the answer to the export_base submission followed by
  the id of every producer actually submitted (texture_convert, proxy, each \<open>lod[i]\<close>)
  whose submission returned a non-empty id, in the order of submission, and of nothing
  else; the producers submitted are exactly those the configuration schedules, and each
  recorded id is the farm's answer. So a scheduler that holds a job until every id of its
  dependency list is terminal does not start assemble before export_base and every such
  producer is terminal; a producer whose submission returned no id is not waited for. A
  run returns whenever no submission raises and the export_base submission returns an
  id; where that id is not empty, no id of the list is.
\<close>

theorem assemble_depends_on_all_producers:
  "(run_deadline_publish farm cfg tex = Inr (c, job, aid) \<longrightarrow>
      farm job = Inr aid
      \<and> task_type job = ''assemble''
      \<and> map fst (submitted c) = scheduled_jobs cfg tex
      \<and> (\<forall>s \<in> set (submitted c). farm (fst s) = Inr (snd s))
      \<and> (\<exists>deps. JobDependencies job = Some (join '','' deps)
           \<and> map Some deps = snd (hd (submitted c)) # filter truthy (map snd (tl (submitted c)))
           \<and> (\<forall>s \<in> set (submitted c). truthy (snd s) \<longrightarrow> the (snd s) \<in> set deps)
           \<and> (\<forall>d \<in> set deps. Some d \<in> snd ` set (submitted c))
           \<and> (\<forall>terminal. may_start deps terminal \<longrightarrow>
                 (\<forall>s \<in> set (submitted c). truthy (snd s) \<longrightarrow> the (snd s) \<in> terminal))))
   \<and> (answers farm \<and> farm export_job = Inr (Some eid) \<and> eid \<noteq> [] \<longrightarrow>
        (\<exists>c deps aid.
            run_deadline_publish farm cfg tex = Inr (c, assemble_job (Some (join '','' (eid # deps))), aid)
          \<and> farm (assemble_job (Some (join '','' (eid # deps)))) = Inr aid
          \<and> map Some deps = filter truthy (map snd (tl (submitted c)))
          \<and> [] \<notin> set (eid # deps)))"
proof -
  have A: "farm job = Inr aid
      \<and> task_type job = ''assemble''
      \<and> map fst (submitted c) = scheduled_jobs cfg tex
      \<and> (\<forall>s \<in> set (submitted c). farm (fst s) = Inr (snd s))
      \<and> (\<exists>deps. JobDependencies job = Some (join '','' deps)
           \<and> map Some deps = snd (hd (submitted c)) # filter truthy (map snd (tl (submitted c)))
           \<and> (\<forall>s \<in> set (submitted c). truthy (snd s) \<longrightarrow> the (snd s) \<in> set deps)
           \<and> (\<forall>d \<in> set deps. Some d \<in> snd ` set (submitted c))
           \<and> (\<forall>terminal. may_start deps terminal \<longrightarrow>
                 (\<forall>s \<in> set (submitted c). truthy (snd s) \<longrightarrow> the (snd s) \<in> terminal)))"
    if run: "run_deadline_publish farm cfg tex = Inr (c, job, aid)" for c job aid
  proof -
    note ch = run_deadline_publish_chain[OF run]
    have ok: "submitted c \<noteq> []"
      and deps: "assembly_dependencies c = snd (hd (submitted c)) # filter truthy (map snd (tl (submitted c)))"
      using ch by (simp_all add: chain_ok_def)
    have entry: "job_dependencies_entry (assembly_dependencies c) = Inr (JobDependencies job)"
      using ch by simp
    have nonone: "None \<notin> set (assembly_dependencies c)"
      using entry deps by (auto simp: job_dependencies_entry_def split: if_splits)
    let ?deps = "map the (assembly_dependencies c)"
    have jd: "JobDependencies job = Some (join '','' ?deps)"
      using entry deps nonone by (auto simp: job_dependencies_entry_def split: if_splits)
    have ms: "map Some ?deps = snd (hd (submitted c)) # filter truthy (map snd (tl (submitted c)))"
      using map_Some_the[OF nonone] deps by simp
    have sub: "set (submitted c) = insert (hd (submitted c)) (set (tl (submitted c)))"
      using ok by (cases "submitted c") auto
    have all_in0: "\<forall>s \<in> set (submitted c). truthy (snd s) \<longrightarrow> snd s \<in> set (assembly_dependencies c)"
      by (subst deps, subst sub) auto
    have all_in: "\<forall>s \<in> set (submitted c). truthy (snd s) \<longrightarrow> the (snd s) \<in> set ?deps"
      using all_in0 by auto
    have only0: "\<forall>jid \<in> set (assembly_dependencies c). jid \<in> snd ` set (submitted c)"
    proof
      fix jid
      assume "jid \<in> set (assembly_dependencies c)"
      then have "jid \<in> set (snd (hd (submitted c)) # filter truthy (map snd (tl (submitted c))))"
        using deps by simp
      then have "jid = snd (hd (submitted c)) \<or> jid \<in> snd ` set (tl (submitted c))" by auto
      then show "jid \<in> snd ` set (submitted c)" using sub by auto
    qed
    have only: "\<forall>d \<in> set ?deps. Some d \<in> snd ` set (submitted c)"
    proof
      fix d
      assume "d \<in> set ?deps"
      then obtain x where x: "x \<in> set (assembly_dependencies c)" "d = the x" by auto
      have "x \<noteq> None"
      proof
        assume "x = None"
        then show False using x(1) nonone by simp
      qed
      then have "x = Some d" using x(2) by auto
      then show "Some d \<in> snd ` set (submitted c)" using x(1) only0 by auto
    qed
    have temporal: "\<forall>terminal. may_start ?deps terminal \<longrightarrow>
                 (\<forall>s \<in> set (submitted c). truthy (snd s) \<longrightarrow> the (snd s) \<in> terminal)"
      using all_in by (auto simp: may_start_def)
    have tt: "task_type job = ''assemble''"
      using ch by (metis assemble_job_def farm_job.select_convs(2))
    have fj: "farm job = Inr aid" using ch by simp
    have rec: "\<forall>s \<in> set (submitted c). farm (fst s) = Inr (snd s)" using ch by simp
    have ex: "\<exists>deps. JobDependencies job = Some (join '','' deps)
           \<and> map Some deps = snd (hd (submitted c)) # filter truthy (map snd (tl (submitted c)))
           \<and> (\<forall>s \<in> set (submitted c). truthy (snd s) \<longrightarrow> the (snd s) \<in> set deps)
           \<and> (\<forall>d \<in> set deps. Some d \<in> snd ` set (submitted c))
           \<and> (\<forall>terminal. may_start deps terminal \<longrightarrow>
                 (\<forall>s \<in> set (submitted c). truthy (snd s) \<longrightarrow> the (snd s) \<in> terminal))"
      by (rule exI[of _ ?deps]) (intro conjI jd ms all_in only temporal)
    show ?thesis
      by (intro conjI fj tt run_deadline_publish_jobs[OF run] rec ex)
  qed
  have B: "\<exists>c deps aid.
            run_deadline_publish farm cfg tex = Inr (c, assemble_job (Some (join '','' (eid # deps))), aid)
          \<and> farm (assemble_job (Some (join '','' (eid # deps)))) = Inr aid
          \<and> map Some deps = filter truthy (map snd (tl (submitted c)))
          \<and> [] \<notin> set (eid # deps)"
    if a: "answers farm" and e: "farm export_job = Inr (Some eid)" and ne: "eid \<noteq> []"
  proof -
    obtain c job aid where run: "run_deadline_publish farm cfg tex = Inr (c, job, aid)"
      using run_deadline_publish_returns[OF a e] by blast
    note ch = run_deadline_publish_chain[OF run]
    have ok: "submitted c \<noteq> []"
      and deps: "assembly_dependencies c = snd (hd (submitted c)) # filter truthy (map snd (tl (submitted c)))"
      using ch by (simp_all add: chain_ok_def)
    have entry: "job_dependencies_entry (assembly_dependencies c) = Inr (JobDependencies job)"
      using ch by simp
    have nonone: "None \<notin> set (assembly_dependencies c)"
      using entry deps by (auto simp: job_dependencies_entry_def split: if_splits)
    have jd: "JobDependencies job = Some (join '','' (map the (assembly_dependencies c)))"
      using entry deps nonone by (auto simp: job_dependencies_entry_def split: if_splits)
    have "hd (submitted c) \<in> set (submitted c)" using ok by simp
    then have "farm (fst (hd (submitted c))) = Inr (snd (hd (submitted c)))" using ch by blast
    then have h: "snd (hd (submitted c)) = Some eid" using ch e by simp
    let ?ids = "filter truthy (map snd (tl (submitted c)))"
    let ?deps = "map the ?ids"
    have nn: "None \<notin> set ?ids" by (auto simp: truthy_def)
    have ms: "map Some ?deps = ?ids" by (rule map_Some_the[OF nn])
    have all: "map the (assembly_dependencies c) = eid # ?deps"
      by (subst deps) (simp add: h)
    have nz: "[] \<notin> set ?deps" by (auto simp: truthy_def split: option.splits)
    have jobeq: "job = assemble_job (Some (join '','' (eid # ?deps)))"
      using ch jd all by simp
    have fj: "farm (assemble_job (Some (join '','' (eid # ?deps)))) = Inr aid"
      using ch jobeq by simp
    have r: "run_deadline_publish farm cfg tex = Inr (c, assemble_job (Some (join '','' (eid # ?deps))), aid)"
      using run jobeq by simp
    have nz': "[] \<notin> set (eid # ?deps)" using nz ne by simp
    show ?thesis
      by (rule exI[of _ c], rule exI[of _ ?deps], rule exI[of _ aid])
         (rule conjI[OF r conjI[OF fj conjI[OF ms nz']]])
  qed
  have A': "run_deadline_publish farm cfg tex = Inr (c, job, aid) \<longrightarrow>
      farm job = Inr aid
      \<and> task_type job = ''assemble''
      \<and> map fst (submitted c) = scheduled_jobs cfg tex
      \<and> (\<forall>s \<in> set (submitted c). farm (fst s) = Inr (snd s))
      \<and> (\<exists>deps. JobDependencies job = Some (join '','' deps)
           \<and> map Some deps = snd (hd (submitted c)) # filter truthy (map snd (tl (submitted c)))
           \<and> (\<forall>s \<in> set (submitted c). truthy (snd s) \<longrightarrow> the (snd s) \<in> set deps)
           \<and> (\<forall>d \<in> set deps. Some d \<in> snd ` set (submitted c))
           \<and> (\<forall>terminal. may_start deps terminal \<longrightarrow>
                 (\<forall>s \<in> set (submitted c). truthy (snd s) \<longrightarrow> the (snd s) \<in> terminal)))"
    by (rule impI) (rule A)
  have B': "answers farm \<and> farm export_job = Inr (Some eid) \<and> eid \<noteq> [] \<longrightarrow>
        (\<exists>c deps aid.
            run_deadline_publish farm cfg tex = Inr (c, assemble_job (Some (join '','' (eid # deps))), aid)
          \<and> farm (assemble_job (Some (join '','' (eid # deps)))) = Inr aid
          \<and> map Some deps = filter truthy (map snd (tl (submitted c)))
          \<and> [] \<notin> set (eid # deps))"
    by (rule impI, elim conjE, rule B)
  show ?thesis by (rule conjI[OF A' B'])
qed

theorem assemble_depends_on_all_producers_witness:
  "answers naming_farm \<and> naming_farm export_job = Inr (Some ''id-Maya_Export_Base'')
   \<and> ''id-Maya_Export_Base'' \<noteq> []
   \<and> (\<exists>c. run_deadline_publish naming_farm example_config True
              = Inr (c, assemble_job (Some ''id-Maya_Export_Base,id-OIIO_Convert,id-Geo_LOD1,id-Geo_LOD2''),
                     Some ''id-Assemble_Shotgun_Submission'')
          \<and> naming_farm (assemble_job (Some ''id-Maya_Export_Base,id-OIIO_Convert,id-Geo_LOD1,id-Geo_LOD2''))
              = Inr (Some ''id-Assemble_Shotgun_Submission'')
          \<and> map (job_suffix \<circ> fst) (submitted c)
              = [''Maya_Export_Base'', ''OIIO_Convert'', ''Geo_Proxy'', ''Geo_LOD1'', ''Geo_LOD2''])"
proof -
  have a: "answers naming_farm" by (simp add: answers_def naming_farm_def)
  have e: "naming_farm export_job = Inr (Some ''id-Maya_Export_Base'')"
    by (simp add: naming_farm_def export_job_def)
  have n: "''id-Maya_Export_Base'' \<noteq> []" by simp
  have t: "answers naming_farm \<and> naming_farm export_job = Inr (Some ''id-Maya_Export_Base'')
             \<and> ''id-Maya_Export_Base'' \<noteq> [] \<longrightarrow>
        (\<exists>c deps aid.
            run_deadline_publish naming_farm example_config True
              = Inr (c, assemble_job (Some (join '','' (''id-Maya_Export_Base'' # deps))), aid)
          \<and> naming_farm (assemble_job (Some (join '','' (''id-Maya_Export_Base'' # deps)))) = Inr aid
          \<and> map Some deps = filter truthy (map snd (tl (submitted c)))
          \<and> [] \<notin> set (''id-Maya_Export_Base'' # deps))"
    by (rule conjunct2[OF assemble_depends_on_all_producers[of naming_farm example_config True _ _ _
            "''id-Maya_Export_Base''"]])
  from t[rule_format, OF conjI[OF a conjI[OF e n]]] obtain c deps aid where
    run: "run_deadline_publish naming_farm example_config True
            = Inr (c, assemble_job (Some (join '','' (''id-Maya_Export_Base'' # deps))), aid)"
    and fa: "naming_farm (assemble_job (Some (join '','' (''id-Maya_Export_Base'' # deps)))) = Inr aid"
    by (elim exE conjE)
  have ev: "map_sum id (\<lambda>(c, job, aid). (map (job_suffix \<circ> fst) (submitted c), job, aid))
              (run_deadline_publish naming_farm example_config True)
            = Inr ([''Maya_Export_Base'', ''OIIO_Convert'', ''Geo_Proxy'', ''Geo_LOD1'', ''Geo_LOD2''],
                   assemble_job (Some ''id-Maya_Export_Base,id-OIIO_Convert,id-Geo_LOD1,id-Geo_LOD2''),
                   Some ''id-Assemble_Shotgun_Submission'')"
    by code_simp
  have j: "assemble_job (Some (join '','' (''id-Maya_Export_Base'' # deps)))
             = assemble_job (Some ''id-Maya_Export_Base,id-OIIO_Convert,id-Geo_LOD1,id-Geo_LOD2'')"
    and s: "map (job_suffix \<circ> fst) (submitted c)
           = [''Maya_Export_Base'', ''OIIO_Convert'', ''Geo_Proxy'', ''Geo_LOD1'', ''Geo_LOD2'']"
    and i: "aid = Some ''id-Assemble_Shotgun_Submission''"
    using ev unfolding run by simp_all
  have r: "run_deadline_publish naming_farm example_config True
              = Inr (c, assemble_job (Some ''id-Maya_Export_Base,id-OIIO_Convert,id-Geo_LOD1,id-Geo_LOD2''),
                     Some ''id-Assemble_Shotgun_Submission'')"
    using run unfolding j i .
  have f: "naming_farm (assemble_job (Some ''id-Maya_Export_Base,id-OIIO_Convert,id-Geo_LOD1,id-Geo_LOD2''))
              = Inr (Some ''id-Assemble_Shotgun_Submission'')"
    using fa unfolding j i .
  have "\<exists>c. run_deadline_publish naming_farm example_config True
              = Inr (c, assemble_job (Some ''id-Maya_Export_Base,id-OIIO_Convert,id-Geo_LOD1,id-Geo_LOD2''),
                     Some ''id-Assemble_Shotgun_Submission'')
          \<and> naming_farm (assemble_job (Some ''id-Maya_Export_Base,id-OIIO_Convert,id-Geo_LOD1,id-Geo_LOD2''))
              = Inr (Some ''id-Assemble_Shotgun_Submission'')
          \<and> map (job_suffix \<circ> fst) (submitted c)
              = [''Maya_Export_Base'', ''OIIO_Convert'', ''Geo_Proxy'', ''Geo_LOD1'', ''Geo_LOD2'']"
    by (rule exI[of _ c]) (rule conjI[OF r conjI[OF f s]])
  then show ?thesis by (rule conjI[OF a conjI[OF e conjI[OF n]]])
qed


end
